theory Spec2Isabelle
  imports Main "HOL-Library.Sublist" "HOL-Library.AList"
begin

section \<open>Python strings\<close>

text \<open>
  A Python \<^verbatim>\<open>str\<close> is a sequence of Unicode code points and \<^verbatim>\<open>len\<close> counts code
  points, so a string is a list of code points, each a natural number.
\<close>

type_synonym pstr = "nat list"

definition ascii :: "string \<Rightarrow> pstr" where
  "ascii s = map of_char s"

text \<open>
  \<^verbatim>\<open>s.count(sub)\<close>: the number of non-overlapping occurrences of \<^verbatim>\<open>sub\<close>, found from
  left to right; for the empty \<^verbatim>\<open>sub\<close> it is \<^verbatim>\<open>len(s) + 1\<close>.
\<close>

function count_ne :: "pstr \<Rightarrow> pstr \<Rightarrow> nat" where
  "count_ne [] sub = 0"
| "count_ne (x # xs) sub =
     (if sub \<noteq> [] \<and> prefix sub (x # xs)
      then Suc (count_ne (drop (length sub) (x # xs)) sub)
      else count_ne xs sub)"
  by pat_completeness auto
termination
  by (relation "measure (\<lambda>(s, sub). length s)") auto

definition py_count :: "pstr \<Rightarrow> pstr \<Rightarrow> nat" where
  "py_count s sub = (if sub = [] then length s + 1 else count_ne s sub)"

text \<open>
  \<^verbatim>\<open>s.replace(old, new)\<close>: every non-overlapping occurrence of \<^verbatim>\<open>old\<close>, found from left
  to right, becomes \<^verbatim>\<open>new\<close>; for the empty \<^verbatim>\<open>old\<close>, \<^verbatim>\<open>new\<close> is put before every
  character and at the end.
\<close>

function replace_ne :: "pstr \<Rightarrow> pstr \<Rightarrow> pstr \<Rightarrow> pstr" where
  "replace_ne [] old new = []"
| "replace_ne (x # xs) old new =
     (if old \<noteq> [] \<and> prefix old (x # xs)
      then new @ replace_ne (drop (length old) (x # xs)) old new
      else x # replace_ne xs old new)"
  by pat_completeness auto
termination
  by (relation "measure (\<lambda>(s, old, new). length s)") auto

definition py_replace :: "pstr \<Rightarrow> pstr \<Rightarrow> pstr \<Rightarrow> pstr" where
  "py_replace s old new =
     (if old = [] then new @ concat (map (\<lambda>c. c # new) s) else replace_ne s old new)"

definition startswith :: "pstr \<Rightarrow> pstr \<Rightarrow> bool" where
  "startswith s p = prefix p s"

definition endswith :: "pstr \<Rightarrow> pstr \<Rightarrow> bool" where
  "endswith s p = suffix p s"

section \<open>Dictionaries\<close>

text \<open>
  A Python \<^verbatim>\<open>dict\<close> keeps its keys in insertion order, and the order is observable
  (\<^verbatim>\<open>sorted\<close> is stable), so a dictionary is an association list with distinct keys.
  \<^verbatim>\<open>d[k] = v\<close> is \<^const>\<open>AList.update\<close>: an existing key keeps its place, a new one goes
  to the end.
\<close>

type_synonym store = "(pstr \<times> pstr) list"

definition dict_update :: "store \<Rightarrow> store \<Rightarrow> store" where
  "dict_update d other = foldl (\<lambda>acc (k, v). AList.update k v acc) d other"

section \<open>The Applicator (apply\_translations.py)\<close>

text \<open>The test of lines 109 and 176: \<^verbatim>\<open>v.startswith('[') and v.endswith(']')\<close>.\<close>

definition is_placeholder :: "pstr \<Rightarrow> bool" where
  "is_placeholder v \<longleftrightarrow> startswith v [91] \<and> endswith v [93]"

text \<open>Line 116: \<^verbatim>\<open>english_translation.replace('"', '\\"').replace("'", "\\'")\<close>.\<close>

definition escape_quotes :: "pstr \<Rightarrow> pstr" where
  "escape_quotes v = py_replace (py_replace v [34] [92, 34]) [39] [92, 39]"

text \<open>
  Line 104: \<^verbatim>\<open>sorted(self.translations.items(), key=lambda x: len(x[0]), reverse=True)\<close>.
  Python's sort is stable also with \<^verbatim>\<open>reverse=True\<close>: entries with keys of equal length
  keep the order of the dictionary.
\<close>

definition sorted_translations :: "store \<Rightarrow> store" where
  "sorted_translations translations = sort_key (\<lambda>x. - int (length (fst x))) translations"

text \<open>
  One turn of the loop of lines 107 to 120, on the pair of the content and the counter
  \<^verbatim>\<open>file_replacements\<close>.
\<close>

definition apply_step :: "pstr \<times> nat \<Rightarrow> pstr \<times> pstr \<Rightarrow> pstr \<times> nat" where
  "apply_step st entry =
     (case st of (content, file_replacements) \<Rightarrow>
      case entry of (chinese_text, english_translation) \<Rightarrow>
        if is_placeholder english_translation then (content, file_replacements)
        else let occurrences = py_count content chinese_text in
          if occurrences > 0
          then (py_replace content chinese_text (escape_quotes english_translation),
                file_replacements + occurrences)
          else (content, file_replacements))"

definition apply_loop :: "store \<Rightarrow> pstr \<times> nat \<Rightarrow> pstr \<times> nat" where
  "apply_loop entries st = foldl apply_step st entries"

text \<open>Lines 99 to 120: the content and the counter after the loop over the sorted store.\<close>

definition apply_translations_to_content :: "store \<Rightarrow> pstr \<Rightarrow> pstr \<times> nat" where
  "apply_translations_to_content translations content =
     apply_loop (sorted_translations translations) (content, 0)"

section \<open>Files\<close>

text \<open>
  A file system maps a path to the bytes of the file there. The codecs, the JSON reader
  and writer, and the directory services of the operating system are library code: they
  are parameters of the model. \<open>decode\<close> and \<open>encode\<close> stand for the text layer of
  \<^verbatim>\<open>open(path, mode, encoding=...)\<close> (\<open>None\<close>: \<^verbatim>\<open>UnicodeDecodeError\<close>, \<^verbatim>\<open>UnicodeEncodeError\<close>),
  \<open>json_load\<close> for \<^verbatim>\<open>json.load\<close> on a file opened as UTF-8 (\<open>None\<close>: it raises),
  \<open>walk_apply\<close> and \<open>walk_scan\<close> for the pairs (joined path, file name) that
  \<^verbatim>\<open>os.walk\<close> yields after the pruning of directory names that the Applicator and the
  scanner do, \<open>is_text_file_apply\<close> and \<open>is_text_file_scan\<close> for their tests on the
  extension of a file. Paths are taken absolute; permission errors are not
  modelled.
\<close>

type_synonym path = string
type_synonym bytes = "nat list"
type_synonym filesystem = "path \<rightharpoonup> bytes"

datatype encoding = UTF8 | GBK | GB2312 | UTF16

datatype exn = UnicodeDecodeError | UnicodeEncodeError | FileNotFoundError

record os_services =
  decode :: "encoding \<Rightarrow> bytes \<Rightarrow> pstr option"
  encode :: "encoding \<Rightarrow> pstr \<Rightarrow> bytes option"
  json_load :: "bytes \<Rightarrow> store option"
  json_dump :: "store \<Rightarrow> bytes"
  is_text_file_apply :: "path \<Rightarrow> bool"
  is_text_file_scan :: "path \<Rightarrow> bool"
  isdir :: "path \<Rightarrow> bool"
  walk_apply :: "path \<Rightarrow> (path \<times> string) list"
  walk_scan :: "path \<Rightarrow> (path \<times> string) list"
  copytree :: "filesystem \<Rightarrow> path \<Rightarrow> path \<Rightarrow> filesystem"

definition encodings :: "encoding list" where
  "encodings = [UTF8, GBK, GB2312, UTF16]"

text \<open>\<^verbatim>\<open>with open(file_path, 'r', encoding=encoding) as f: content = f.read()\<close>\<close>

definition read_text :: "os_services \<Rightarrow> filesystem \<Rightarrow> path \<Rightarrow> encoding \<Rightarrow> exn + pstr" where
  "read_text os fs file_path enc =
     (case fs file_path of
        None \<Rightarrow> Inl FileNotFoundError
      | Some raw \<Rightarrow> (case decode os enc raw of None \<Rightarrow> Inl UnicodeDecodeError | Some s \<Rightarrow> Inr s))"

text \<open>
  \<^verbatim>\<open>with open(file_path, 'w', encoding=encoding) as f: f.write(content)\<close>. Opening for
  writing empties the file; when the content cannot be encoded, \<^verbatim>\<open>write\<close> raises and the
  file stays empty.
\<close>

definition write_text ::
  "os_services \<Rightarrow> filesystem \<Rightarrow> path \<Rightarrow> encoding \<Rightarrow> pstr \<Rightarrow> exn option \<times> filesystem" where
  "write_text os fs file_path enc content =
     (case encode os enc content of
        None \<Rightarrow> (Some UnicodeEncodeError, fs(file_path \<mapsto> []))
      | Some raw \<Rightarrow> (None, fs(file_path \<mapsto> raw)))"

text \<open>
  The loop of lines 86 to 93 (and of the two scanners): the first encoding that decodes
  the file, with the decoded content. \<open>Inr None\<close>: no encoding decodes it;
  \<open>Inl\<close>: another exception left the loop.
\<close>

fun read_first ::
  "os_services \<Rightarrow> filesystem \<Rightarrow> path \<Rightarrow> encoding list \<Rightarrow> exn + (pstr \<times> encoding) option" where
  "read_first os fs file_path [] = Inr None"
| "read_first os fs file_path (enc # encs) =
     (case read_text os fs file_path enc of
        Inr content \<Rightarrow> Inr (Some (content, enc))
      | Inl UnicodeDecodeError \<Rightarrow> read_first os fs file_path encs
      | Inl e \<Rightarrow> Inl e)"

section \<open>The Applicator on files\<close>

text \<open>The object's field \<^verbatim>\<open>translations\<close> is \<open>translations_dict\<close> here.\<close>

record applicator =
  translations_file :: path
  translations_dict :: store
  backup_made :: bool
  files_modified :: nat
  replacements_made :: nat

text \<open>
  \<^verbatim>\<open>load_translations\<close>, lines 21 to 36: every exception is caught and answered by
  \<^verbatim>\<open>False\<close>.
\<close>

definition load_translations :: "os_services \<Rightarrow> applicator \<Rightarrow> filesystem \<Rightarrow> bool \<times> applicator" where
  "load_translations os app fs =
     (case fs (translations_file app) of
        None \<Rightarrow> (False, app)
      | Some raw \<Rightarrow>
          (case json_load os raw of
             None \<Rightarrow> (False, app)
           | Some d \<Rightarrow> (True, app\<lparr>translations_dict := d\<rparr>)))"

text \<open>
  \<^verbatim>\<open>apply_translations_to_file\<close>, lines 80 to 134. The outer \<^verbatim>\<open>except Exception\<close> answers
  every exception by \<^verbatim>\<open>False\<close>, after whatever the file system has become.
\<close>

definition apply_translations_to_file ::
  "os_services \<Rightarrow> applicator \<Rightarrow> filesystem \<Rightarrow> path \<Rightarrow> bool \<times> applicator \<times> filesystem" where
  "apply_translations_to_file os app fs file_path =
     (case read_first os fs file_path encodings of
        Inl e \<Rightarrow> (False, app, fs)
      | Inr None \<Rightarrow> (False, app, fs)
      | Inr (Some (original_content, encoding_used)) \<Rightarrow>
          (case apply_translations_to_content (translations_dict app) original_content of
             (content, file_replacements) \<Rightarrow>
               if content \<noteq> original_content
               then (case write_text os fs file_path encoding_used content of
                       (None, fs') \<Rightarrow>
                         (True, app\<lparr>replacements_made := replacements_made app + file_replacements\<rparr>, fs')
                     | (Some e, fs') \<Rightarrow> (False, app, fs'))
               else (False, app, fs)))"

text \<open>\<^verbatim>\<open>create_backup\<close>, lines 59 to 78.\<close>

definition create_backup ::
  "os_services \<Rightarrow> applicator \<Rightarrow> filesystem \<Rightarrow> path \<Rightarrow> applicator \<times> filesystem" where
  "create_backup os app fs directory =
     (if backup_made app then (app, fs)
      else let directory_clean = rev (dropWhile (\<lambda>c. c = CHR ''/'' \<or> c = CHR 0x5C) (rev directory));
               backup_dir = directory_clean @ ''__backup''
           in if fs backup_dir \<noteq> None \<or> isdir os backup_dir
              then (app\<lparr>backup_made := True\<rparr>, fs)
              else (app\<lparr>backup_made := True\<rparr>, copytree os fs directory backup_dir))"

text \<open>\<^verbatim>\<open>apply_translations_to_directory\<close>, lines 136 to 167.\<close>

definition visit_file ::
  "os_services \<Rightarrow> applicator \<times> filesystem \<Rightarrow> path \<times> string \<Rightarrow> applicator \<times> filesystem" where
  "visit_file os st entry =
     (case st of (app, fs) \<Rightarrow>
      case entry of (file_path, file) \<Rightarrow>
        if prefix ''.'' file \<or> \<not> is_text_file_apply os file_path then (app, fs)
        else (case apply_translations_to_file os app fs file_path of
                (changed, app', fs') \<Rightarrow>
                  (if changed then app'\<lparr>files_modified := files_modified app' + 1\<rparr> else app', fs')))"

definition apply_translations_to_directory ::
  "os_services \<Rightarrow> applicator \<Rightarrow> filesystem \<Rightarrow> path \<Rightarrow> bool \<Rightarrow> applicator \<times> filesystem" where
  "apply_translations_to_directory os app fs directory backup =
     (if translations_dict app = [] then (app, fs)
      else foldl (visit_file os)
             (if backup then create_backup os app fs directory else (app, fs))
             (walk_apply os directory))"

text \<open>Lines 175 and 176: the entries \<^verbatim>\<open>run\<close> keeps.\<close>

definition valid_translations :: "store \<Rightarrow> store" where
  "valid_translations d = filter (\<lambda>(k, v). \<not> is_placeholder v) d"

text \<open>\<^verbatim>\<open>TranslationApplicator.run\<close>, lines 169 to 225.\<close>

definition run ::
  "os_services \<Rightarrow> applicator \<Rightarrow> filesystem \<Rightarrow> path \<Rightarrow> bool \<Rightarrow> applicator \<times> filesystem" where
  "run os app fs target backup =
     (case load_translations os app fs of
        (False, app1) \<Rightarrow> (app1, fs)
      | (True, app1) \<Rightarrow>
          if valid_translations (translations_dict app1) = [] then (app1, fs)
          else let app2 = app1\<lparr>translations_dict := valid_translations (translations_dict app1)\<rparr> in
            if fs target \<noteq> None then
              if \<not> is_text_file_apply os target then (app2, fs)
              else let fs1 = (if backup then fs(target @ ''.backup'' := fs target) else fs) in
                (case apply_translations_to_file os app2 fs1 target of
                   (changed, app3, fs2) \<Rightarrow>
                     (if changed then app3\<lparr>files_modified := 1\<rparr> else app3, fs2))
            else if isdir os target then apply_translations_to_directory os app2 fs target backup
            else (app2, fs))"

section \<open>The extraction grammar (translate\_googletranslate.py, translate\_local.py)\<close>

text \<open>
  The three ranges of the character class
  \<^verbatim>\<open>[\u4e00-\u9fff\u3400-\u4dbf\uf900-\ufaff]\<close>.
\<close>

definition is_cjk :: "nat \<Rightarrow> bool" where
  "is_cjk c \<longleftrightarrow> (0x4E00 \<le> c \<and> c \<le> 0x9FFF) \<or> (0x3400 \<le> c \<and> c \<le> 0x4DBF) \<or> (0xF900 \<le> c \<and> c \<le> 0xFAFF)"

text \<open>
  The characters that \<^verbatim>\<open>\s\<close> matches in a \<^verbatim>\<open>str\<close> pattern and that \<^verbatim>\<open>str.strip()\<close>
  removes: those for which \<^verbatim>\<open>str.isspace\<close> holds.
\<close>

definition py_isspace :: "nat \<Rightarrow> bool" where
  "py_isspace c \<longleftrightarrow>
     (0x09 \<le> c \<and> c \<le> 0x0D) \<or> (0x1C \<le> c \<and> c \<le> 0x20) \<or> c = 0x85 \<or> c = 0xA0 \<or> c = 0x1680 \<or>
     (0x2000 \<le> c \<and> c \<le> 0x200A) \<or> c = 0x2028 \<or> c = 0x2029 \<or> c = 0x202F \<or> c = 0x205F \<or>
     c = 0x3000"

text \<open>The seven punctuation characters of the class: U+FF0C, U+3002, U+3001, U+FF1A, U+FF1B, U+FF01, U+FF1F.\<close>

definition is_chinese_punct :: "nat \<Rightarrow> bool" where
  "is_chinese_punct c \<longleftrightarrow> c \<in> {0xFF0C, 0x3002, 0x3001, 0xFF1A, 0xFF1B, 0xFF01, 0xFF1F}"

text \<open>The middle class of pattern 1: the ranges, \<^verbatim>\<open>\s\<close> and the punctuation.\<close>

definition in_middle_class :: "nat \<Rightarrow> bool" where
  "in_middle_class c \<longleftrightarrow> is_cjk c \<or> py_isspace c \<or> is_chinese_punct c"

text \<open>
  The tail \<^verbatim>\<open>[...]*[cjk]\<close> of the first alternative of pattern 1, matched at the head
  of a text by the backtracking matcher: the star takes as many characters as it can and
  gives them back one at a time until a character of the ranges follows. The result is
  the number of characters matched, \<open>None\<close> when no split succeeds.
\<close>

fun star_cjk :: "pstr \<Rightarrow> nat option" where
  "star_cjk [] = None"
| "star_cjk (x # xs) =
     (if in_middle_class x
      then (case star_cjk xs of
              Some n \<Rightarrow> Some (Suc n)
            | None \<Rightarrow> if is_cjk x then Some 1 else None)
      else if is_cjk x then Some 1 else None)"

text \<open>
  \<^verbatim>\<open>re.findall(pattern1, content)\<close>: at each position the first alternative is tried
  before the single character; the scan goes on after the match.
\<close>

function findall_pattern1 :: "pstr \<Rightarrow> pstr list" where
  "findall_pattern1 [] = []"
| "findall_pattern1 (x # xs) =
     (if is_cjk x
      then (case star_cjk xs of
              Some n \<Rightarrow> (x # take n xs) # findall_pattern1 (drop n xs)
            | None \<Rightarrow> [x] # findall_pattern1 xs)
      else findall_pattern1 xs)"
  by pat_completeness auto
termination
  by (relation "measure length") auto

text \<open>\<^verbatim>\<open>re.findall(pattern2, content)\<close>: the maximal runs of characters of the ranges.\<close>

function findall_pattern2 :: "pstr \<Rightarrow> pstr list" where
  "findall_pattern2 [] = []"
| "findall_pattern2 (x # xs) =
     (if is_cjk x
      then (x # takeWhile is_cjk xs) # findall_pattern2 (dropWhile is_cjk xs)
      else findall_pattern2 xs)"
  by pat_completeness auto
termination
  by (relation "measure length") (auto simp: le_imp_less_Suc length_dropWhile_le)

definition py_strip :: "pstr \<Rightarrow> pstr" where
  "py_strip s = rev (dropWhile py_isspace (rev (dropWhile py_isspace s)))"

text \<open>
  Lines 174 to 188 of translate\_googletranslate.py (96 to 110 of translate\_local.py),
  on the decoded content.
\<close>

definition extract_chinese_strings :: "pstr \<Rightarrow> pstr set" where
  "extract_chinese_strings content =
     (let matches1 = findall_pattern1 content;
          matches2 = findall_pattern2 content;
          all_matches = matches1 @ matches2
      in set (filter (\<lambda>cleaned. cleaned \<noteq> [] \<and> length cleaned \<ge> 1 \<and> list_ex is_cjk cleaned)
                (map py_strip all_matches)))"

text \<open>
  \<^verbatim>\<open>extract_chinese_strings_from_file\<close>: a file that no encoding decodes, or that cannot
  be read, gives the set built so far, which is empty.
\<close>

definition extract_chinese_strings_from_file :: "os_services \<Rightarrow> filesystem \<Rightarrow> path \<Rightarrow> pstr set" where
  "extract_chinese_strings_from_file os fs file_path =
     (case read_first os fs file_path encodings of
        Inl e \<Rightarrow> {}
      | Inr None \<Rightarrow> {}
      | Inr (Some (content, enc)) \<Rightarrow> extract_chinese_strings content)"

text \<open>\<^verbatim>\<open>scan_directory\<close>, lines 201 to 218.\<close>

definition scan_directory :: "os_services \<Rightarrow> filesystem \<Rightarrow> path \<Rightarrow> pstr set" where
  "scan_directory os fs directory =
     foldl (\<lambda>all_chinese_strings (file_path, file).
              if is_text_file_scan os file_path
              then all_chinese_strings \<union> extract_chinese_strings_from_file os fs file_path
              else all_chinese_strings)
       {} (walk_scan os directory)"

section \<open>The Translator (translate\_googletranslate.py)\<close>

text \<open>
  The two translation backends are parameters: \<open>argos\<close> is
  \<^verbatim>\<open>argostranslate.translate.translate(text, "zh", "en")\<close> (\<open>None\<close>: it raises), and
  \<open>google_post\<close> is the request that carries one batch. \<open>Ok200 ts\<close>: status 200 with the
  texts \<open>ts\<close> under \<^verbatim>\<open>translatedText\<close>; \<open>Failed\<close>: another status; \<open>Raises\<close>: the request
  or the reading of its body raises.
\<close>

datatype response = Ok200 "pstr list" | Failed | Raises

record backends =
  argos :: "pstr \<Rightarrow> pstr option"
  google_post :: "pstr list \<Rightarrow> response"

record translator =
  threshold :: int
  google_translate_ready :: bool
  argos_translator_ready :: bool

definition bracket :: "string \<Rightarrow> pstr \<Rightarrow> pstr" where
  "bracket reason text = ascii ''['' @ ascii reason @ ascii '': '' @ text @ ascii '']''"

text \<open>\<^verbatim>\<open>translate_with_argos\<close>, lines 232 to 242.\<close>

definition translate_with_argos :: "translator \<Rightarrow> backends \<Rightarrow> pstr \<Rightarrow> pstr" where
  "translate_with_argos tr be chinese_text =
     (if \<not> argos_translator_ready tr then bracket ''ARGOS_NOT_READY'' chinese_text
      else (case argos be chinese_text of
              Some translation \<Rightarrow> py_strip translation
            | None \<Rightarrow> bracket ''ARGOS_ERROR'' chinese_text))"

text \<open>
  \<^verbatim>\<open>range(0, len(chinese_strings), batch_size)\<close> with \<^verbatim>\<open>chinese_strings[i:i + batch_size]\<close>.
\<close>

function batches :: "nat \<Rightarrow> 'a list \<Rightarrow> 'a list list" where
  "batches n xs = (if n = 0 \<or> xs = [] then [] else take n xs # batches n (drop n xs))"
  by pat_completeness auto
termination
  by (relation "measure (\<lambda>(n, xs). length xs)") auto

declare batches.simps [simp del]

definition batch_size :: nat where
  "batch_size = 128"

text \<open>The body of the loop over the batches, lines 305 to 317 (274 to 286).\<close>

definition batch_entries :: "pstr list \<Rightarrow> pstr list \<Rightarrow> store" where
  "batch_entries batch ts =
     map (\<lambda>(original, translation).
            let translated_text = py_strip translation
            in (original, if translated_text \<noteq> [] then translated_text
                          else bracket ''GOOGLE_API_ERROR'' original))
       (zip batch ts)"

fun google_loop :: "backends \<Rightarrow> pstr list list \<Rightarrow> store \<Rightarrow> store option" where
  "google_loop be [] translation_dict = Some translation_dict"
| "google_loop be (batch # rest) translation_dict =
     (case google_post be batch of
        Raises \<Rightarrow> None
      | Ok200 ts \<Rightarrow> google_loop be rest (dict_update translation_dict (batch_entries batch ts))
      | Failed \<Rightarrow>
          google_loop be rest
            (dict_update translation_dict
               (map (\<lambda>original. (original, bracket ''GOOGLE_API_ERROR'' original)) batch)))"

text \<open>
  \<^verbatim>\<open>translate_batch_with_google_api\<close>, lines 245 to 325. The two branches on the progress
  bar run the same loop.
\<close>

definition translate_batch_with_google_api :: "translator \<Rightarrow> backends \<Rightarrow> pstr list \<Rightarrow> store" where
  "translate_batch_with_google_api tr be chinese_strings =
     (if \<not> google_translate_ready tr
      then dict_update [] (map (\<lambda>text. (text, bracket ''GOOGLE_API_NOT_READY'' text)) chinese_strings)
      else (case google_loop be (batches batch_size chinese_strings) [] of
              Some translation_dict \<Rightarrow> translation_dict
            | None \<Rightarrow>
                dict_update [] (map (\<lambda>text. (text, bracket ''GOOGLE_API_ERROR'' text)) chinese_strings)))"

text \<open>
  The calls that \<^verbatim>\<open>translate_all\<close> makes: \<open>RemoteCall\<close> for
  \<^verbatim>\<open>translate_batch_with_google_api\<close> with its list, \<open>LocalCall\<close> for
  \<^verbatim>\<open>translate_with_argos\<close> with its string.
\<close>

datatype call = RemoteCall "pstr list" | LocalCall pstr

definition argos_all :: "translator \<Rightarrow> backends \<Rightarrow> pstr list \<Rightarrow> store \<Rightarrow> store" where
  "argos_all tr be strings all_translations =
     foldl (\<lambda>acc chinese_text. AList.update chinese_text (translate_with_argos tr be chinese_text) acc)
       all_translations strings"

text \<open>
  \<^verbatim>\<open>translate_all\<close>, lines 327 to 429, on \<^verbatim>\<open>strings_list = list(chinese_strings)\<close>, with
  the calls made. The order in which a Python set is listed is not specified: the
  properties below hold for every list.
\<close>

definition translate_all :: "translator \<Rightarrow> backends \<Rightarrow> pstr list \<Rightarrow> store \<times> call list" where
  "translate_all tr be strings_list =
     (if threshold tr = - 1
      then (argos_all tr be strings_list [], map LocalCall strings_list)
      else if threshold tr = 0 \<and> google_translate_ready tr
      then (translate_batch_with_google_api tr be strings_list, [RemoteCall strings_list])
      else if google_translate_ready tr \<and> threshold tr > 0
      then let long_strings = filter (\<lambda>s. int (length s) \<ge> threshold tr) strings_list;
               short_strings = filter (\<lambda>s. 3 \<le> length s \<and> int (length s) < threshold tr) strings_list;
               after_google =
                 (if long_strings \<noteq> []
                  then dict_update [] (translate_batch_with_google_api tr be long_strings)
                  else []);
               after_argos =
                 (if short_strings \<noteq> [] then argos_all tr be short_strings after_google
                  else after_google)
           in (after_argos,
               (if long_strings \<noteq> [] then [RemoteCall long_strings] else []) @
               map LocalCall short_strings)
      else (argos_all tr be strings_list [], map LocalCall strings_list))"

definition routed_remote :: "call list \<Rightarrow> pstr \<Rightarrow> bool" where
  "routed_remote calls s = list_ex (\<lambda>c. case c of RemoteCall xs \<Rightarrow> s \<in> set xs | LocalCall x \<Rightarrow> False) calls"

definition routed_local :: "call list \<Rightarrow> pstr \<Rightarrow> bool" where
  "routed_local calls s = list_ex (\<lambda>c. case c of RemoteCall xs \<Rightarrow> False | LocalCall x \<Rightarrow> x = s) calls"

text \<open>
  \<^verbatim>\<open>load_existing_translations\<close>, lines 431 to 448: a missing file and every exception
  are answered by the empty dictionary.
\<close>

definition load_existing_translations :: "os_services \<Rightarrow> filesystem \<Rightarrow> path \<Rightarrow> store" where
  "load_existing_translations os fs output_file =
     (case fs output_file of
        None \<Rightarrow> []
      | Some raw \<Rightarrow> (case json_load os raw of None \<Rightarrow> [] | Some existing_translations \<Rightarrow> existing_translations))"

text \<open>\<^verbatim>\<open>save_translations\<close>, lines 450 to 457.\<close>

definition save_translations :: "os_services \<Rightarrow> filesystem \<Rightarrow> store \<Rightarrow> path \<Rightarrow> filesystem" where
  "save_translations os fs d output_file = fs(output_file \<mapsto> json_dump os d)"

text \<open>Lines 511 and 512: the strings of the scan that are sent to translation.\<close>

definition new_strings_to_translate :: "store \<Rightarrow> pstr set \<Rightarrow> pstr set" where
  "new_strings_to_translate existing_translations chinese_strings =
     (let already_translated = set (map fst existing_translations)
      in chinese_strings - already_translated)"

text \<open>Lines 528 and 529: \<^verbatim>\<open>existing_translations.copy()\<close>, then \<^verbatim>\<open>update(new_translations)\<close>.\<close>

definition merge :: "store \<Rightarrow> store \<Rightarrow> store" where
  "merge existing_translations new_translations = dict_update existing_translations new_translations"

text \<open>
  \<^verbatim>\<open>LocalMassTranslator.run\<close>, lines 459 to 537. \<open>google_available\<close> and
  \<open>argos_available\<close> are the two flags set at import; \<open>list_of\<close> is the order in which
  \<^verbatim>\<open>list\<close> lists a set.
\<close>

definition translator_run ::
  "os_services \<Rightarrow> backends \<Rightarrow> (pstr set \<Rightarrow> pstr list) \<Rightarrow> bool \<Rightarrow> bool \<Rightarrow> translator \<Rightarrow>
   filesystem \<Rightarrow> path \<Rightarrow> path option \<Rightarrow> filesystem" where
  "translator_run os be list_of google_available argos_available tr fs directory output =
     (if \<not> google_available \<and> \<not> argos_available then fs
      else if \<not> google_translate_ready tr \<and> \<not> argos_translator_ready tr then fs
      else let output_file =
                 (case output of
                    Some f \<Rightarrow> f
                  | None \<Rightarrow> if google_translate_ready tr then ''translations_google_api_v2.json''
                            else ''translations_argos_fallback.json'');
               existing_translations = load_existing_translations os fs output_file;
               chinese_strings = scan_directory os fs directory
           in if chinese_strings = {} then fs
              else let new_strings = new_strings_to_translate existing_translations chinese_strings
                in if new_strings = {} then fs
                   else let new_translations = fst (translate_all tr be (list_of new_strings));
                            all_translations = merge existing_translations new_translations
                        in save_translations os fs all_translations output_file)"

section \<open>Conditions on the backends and on characters\<close>


definition is_latin_letter :: "nat \<Rightarrow> bool" where
  "is_latin_letter c \<longleftrightarrow>
     (0x41 \<le> c \<and> c \<le> 0x5A) \<or> (0x61 \<le> c \<and> c \<le> 0x7A) \<or>
     (0xC0 \<le> c \<and> c \<le> 0x24F \<and> c \<noteq> 0xD7 \<and> c \<noteq> 0xF7)"

section \<open>A sample environment\<close>

text \<open>
  A small environment on which the properties are evaluated: files hold code points
  that decode in every encoding but UTF-8, the store file parses only when it is the
  single byte 1, and the tree holds one file.
\<close>

definition sample_os :: os_services where
  "sample_os =
     \<lparr>decode = (\<lambda>enc raw. if enc = UTF8 then None else Some raw),
      encode = (\<lambda>enc s. Some s),
      json_load = (\<lambda>raw. if raw = [1] then Some [([20320, 22909], bracket ''ARGOS_ERROR'' [20320, 22909])]
                          else None),
      json_dump = (\<lambda>d. concat (map (\<lambda>(k, v). k @ [58] @ v @ [10]) d)),
      is_text_file_apply = (\<lambda>p. True),
      is_text_file_scan = (\<lambda>p. True),
      isdir = (\<lambda>p. False),
      walk_apply = (\<lambda>d. [(''src/a.js'', ''a.js'')]),
      walk_scan = (\<lambda>d. [(''src/a.js'', ''a.js'')]),
      copytree = (\<lambda>fs src dst. fs)\<rparr>"

definition sample_backends :: backends where
  "sample_backends = \<lparr>argos = (\<lambda>s. Some (ascii ''hello'')), google_post = (\<lambda>batch. Ok200 batch)\<rparr>"

definition sample_fs :: "bytes \<Rightarrow> filesystem" where
  "sample_fs stored = [''src/a.js'' \<mapsto> [20320, 22909], ''t.json'' \<mapsto> stored]"

text \<open>
  A fragment of the real codecs, on bytes: ASCII in every encoding, U+4F60 (bytes C4 E3)
  and U+6A21 (bytes C4 A3) in GBK and GB2312, U+0123 (bytes C4 A3) in UTF-8; UTF-16 is
  not in the fragment. The bytes C4 E3 are not valid UTF-8, and U+1F600 has no GBK
  encoding.
\<close>

fun gbk_mini :: "bytes \<Rightarrow> pstr option" where
  "gbk_mini [] = Some []"
| "gbk_mini [b] = (if b < 128 then Some [b] else None)"
| "gbk_mini (b # b2 # rest) =
     (if b < 128 then map_option ((#) b) (gbk_mini (b2 # rest))
      else if b = 0xC4 \<and> b2 = 0xE3 then map_option ((#) 0x4F60) (gbk_mini rest)
      else if b = 0xC4 \<and> b2 = 0xA3 then map_option ((#) 0x6A21) (gbk_mini rest)
      else None)"

fun utf8_mini :: "bytes \<Rightarrow> pstr option" where
  "utf8_mini [] = Some []"
| "utf8_mini [b] = (if b < 128 then Some [b] else None)"
| "utf8_mini (b # b2 # rest) =
     (if b < 128 then map_option ((#) b) (utf8_mini (b2 # rest))
      else if b = 0xC4 \<and> b2 = 0xA3 then map_option ((#) 0x123) (utf8_mini rest)
      else None)"

definition encode_char_mini :: "encoding \<Rightarrow> nat \<Rightarrow> bytes option" where
  "encode_char_mini enc c =
     (if c < 128 then Some [c]
      else if enc = UTF8 then (if c = 0x123 then Some [0xC4, 0xA3] else None)
      else if enc = UTF16 then None
      else if c = 0x4F60 then Some [0xC4, 0xE3]
      else if c = 0x6A21 then Some [0xC4, 0xA3]
      else None)"

definition encode_mini :: "encoding \<Rightarrow> pstr \<Rightarrow> bytes option" where
  "encode_mini enc s =
     (if list_all (\<lambda>c. encode_char_mini enc c \<noteq> None) s
      then Some (concat (map (\<lambda>c. the (encode_char_mini enc c)) s))
      else None)"

definition mini_os :: os_services where
  "mini_os = sample_os
     \<lparr>decode := (\<lambda>enc raw. case enc of UTF8 \<Rightarrow> utf8_mini raw | UTF16 \<Rightarrow> None | _ \<Rightarrow> gbk_mini raw),
      encode := encode_mini\<rparr>"

section \<open>Conditions on a store\<close>

text \<open>
  A key and an inserted text are apart when no occurrence of the key can touch an
  inserted copy of the text: the key is not empty, neither its first nor its last
  character occurs in the text, and the text has a character that the key has not.
  A store is compatible when every key with an applicable value is apart from every
  escaped applicable value.
\<close>

definition apart :: "pstr \<Rightarrow> pstr \<Rightarrow> bool" where
  "apart k e \<longleftrightarrow> k \<noteq> [] \<and> hd k \<notin> set e \<and> last k \<notin> set e \<and> (\<exists>c\<in>set e. c \<notin> set k)"

definition compatible :: "store \<Rightarrow> bool" where
  "compatible entries \<longleftrightarrow>
     (\<forall>(k, v) \<in> set entries. \<forall>(k', v') \<in> set entries.
        \<not> is_placeholder v \<longrightarrow> \<not> is_placeholder v' \<longrightarrow> apart k (escape_quotes v'))"

section \<open>Lemmas on strings\<close>

lemma count_ne_pos: "sub \<noteq> [] \<Longrightarrow> 0 < count_ne s sub \<longleftrightarrow> sublist sub s"
proof (induction s sub rule: count_ne.induct)
  case (1 sub)
  then show ?case by simp
next
  case (2 x xs sub)
  show ?case
  proof (cases "prefix sub (x # xs)")
    case True
    with 2 show ?thesis by (auto intro: prefix_imp_sublist)
  next
    case False
    with 2 show ?thesis by (simp add: sublist_Cons_right)
  qed
qed

lemma py_count_pos: "0 < py_count s sub \<longleftrightarrow> sublist sub s"
  by (simp add: py_count_def count_ne_pos)

lemma replace_ne_absent: "\<not> sublist old s \<Longrightarrow> replace_ne s old new = s"
proof (induction s old new rule: replace_ne.induct)
  case (1 old new)
  then show ?case by simp
next
  case (2 x xs old new)
  then have np: "\<not> prefix old (x # xs)" and ns: "\<not> sublist old xs"
    by (auto simp: sublist_Cons_right)
  with 2 show ?case by (simp)
qed

lemma prefix_replace_ne:
  "prefix p (replace_ne t old new) \<Longrightarrow> (p \<noteq> [] \<Longrightarrow> last p \<notin> set new)
   \<Longrightarrow> \<exists>c\<in>set new. c \<notin> set p \<Longrightarrow> prefix p t"
proof (induction t old new arbitrary: p rule: replace_ne.induct)
  case (1 old new)
  then show ?case by simp
next
  case (2 x xs old new)
  show ?case
  proof (cases "p = []")
    case True
    then show ?thesis by simp
  next
    case pne: False
    show ?thesis
    proof (cases "old \<noteq> [] \<and> prefix old (x # xs)")
      case True
      then have "prefix p (new @ replace_ne (drop (length old) (x # xs)) old new)"
        using "2.prems"(1) by (simp)
      then have "prefix p new \<or> prefix new p"
        by (metis prefix_append prefix_def)
      then show ?thesis
      proof
        assume "prefix p new"
        then have "set p \<subseteq> set new" by (rule set_mono_prefix)
        with pne have "last p \<in> set new" using last_in_set by blast
        with "2.prems"(2) pne show ?thesis by simp
      next
        assume "prefix new p"
        then have "set new \<subseteq> set p" by (rule set_mono_prefix)
        with "2.prems"(3) show ?thesis by blast
      qed
    next
      case False
      then have eq: "replace_ne (x # xs) old new = x # replace_ne xs old new"
        by auto
      from pne obtain y p' where p: "p = y # p'" by (cases p) auto
      with "2.prems"(1) eq have yx: "y = x" and pp: "prefix p' (replace_ne xs old new)"
        by auto
      have "prefix p' xs"
      proof (rule "2.IH"(2)[OF False pp])
        show "last p' \<notin> set new" if "p' \<noteq> []"
          using that "2.prems"(2) p by simp
        show "\<exists>c\<in>set new. c \<notin> set p'" using "2.prems"(3) p by auto
      qed
      with p yx show ?thesis by simp
    qed
  qed
qed

section \<open>Lemmas on the loop of the Applicator\<close>

lemma sublist_imp_hd_in: "sublist k e \<Longrightarrow> k \<noteq> [] \<Longrightarrow> hd k \<in> set e"
  by (metis hd_in_set set_mono_sublist subsetD)

lemma straddle_hd_in:
  assumes "k = k1 @ k2" "suffix k1 e" "k1 \<noteq> []"
  shows "hd k \<in> set e"
proof -
  from assms have "hd k = hd k1" by simp
  moreover have "hd k1 \<in> set k1" using assms(3) by simp
  moreover have "set k1 \<subseteq> set e" using assms(2) by (rule set_mono_suffix)
  ultimately show ?thesis by auto
qed

lemma no_sublist_replace_ne:
  "apart k new \<Longrightarrow> old \<noteq> [] \<Longrightarrow> k = old \<or> \<not> sublist k s
   \<Longrightarrow> \<not> sublist k (replace_ne s old new)"
proof (induction s old new rule: replace_ne.induct)
  case (1 old new)
  then show ?case by (simp add: apart_def)
next
  case (2 x xs old new)
  from "2.prems"(1) have kne: "k \<noteq> []" and hdk: "hd k \<notin> set new"
    and lastk: "last k \<notin> set new" and ex: "\<exists>c\<in>set new. c \<notin> set k"
    by (auto simp: apart_def)
  show ?case
  proof (cases "old \<noteq> [] \<and> prefix old (x # xs)")
    case True
    let ?r = "replace_ne (drop (length old) (x # xs)) old new"
    have "k = old \<or> \<not> sublist k (drop (length old) (x # xs))"
      using "2.prems"(3) sublist_order.order_trans[OF _ sublist_drop] by blast
    then have ih: "\<not> sublist k ?r"
      using "2.IH"(1)[OF True "2.prems"(1,2)] by blast
    have "\<not> sublist k (new @ ?r)"
    proof
      assume "sublist k (new @ ?r)"
      then consider "sublist k new" | "sublist k ?r"
        | k1 k2 where "k = k1 @ k2" "suffix k1 new" "prefix k2 ?r"
        unfolding sublist_append by blast
      then show False
      proof cases
        case 1
        with kne hdk show False using sublist_imp_hd_in by blast
      next
        case 2
        with ih show False by simp
      next
        case 3
        show False
        proof (cases "k1 = []")
          case True
          with 3 ih show False by (auto dest: prefix_imp_sublist)
        next
          case False
          with 3 hdk show False using straddle_hd_in by blast
        qed
      qed
    qed
    with True show ?thesis by simp
  next
    case False
    let ?r = "replace_ne xs old new"
    have eq: "replace_ne (x # xs) old new = x # ?r" using False by auto
    have "k = old \<or> \<not> sublist k xs"
      using "2.prems"(3) by (auto simp: sublist_Cons_right)
    then have ih: "\<not> sublist k ?r"
      using "2.IH"(2)[OF False "2.prems"(1,2)] by blast
    have "\<not> prefix k (x # ?r)"
    proof
      assume pk: "prefix k (x # ?r)"
      from kne obtain y k' where k: "k = y # k'" by (cases k) auto
      with pk have yx: "y = x" and pk': "prefix k' ?r" by auto
      have "prefix k' xs"
      proof (rule prefix_replace_ne[OF pk'])
        show "last k' \<notin> set new" if "k' \<noteq> []" using that lastk k by simp
        show "\<exists>c\<in>set new. c \<notin> set k'" using ex k by auto
      qed
      with k yx have pre: "prefix k (x # xs)" by simp
      from "2.prems"(3) show False
      proof
        assume "k = old"
        with pre False "2.prems"(2) show False by simp
      next
        assume "\<not> sublist k (x # xs)"
        with pre show False by (auto dest: prefix_imp_sublist)
      qed
    qed
    with ih eq show ?thesis by (simp add: sublist_Cons_right)
  qed
qed

lemma apply_loop_snoc: "apply_loop (es @ [x]) st = apply_step (apply_loop es st) x"
  by (simp add: apply_loop_def)

lemma apply_loop_Cons: "apply_loop (x # es) st = apply_loop es (apply_step st x)"
  by (simp add: apply_loop_def)

lemma apply_loop_Nil: "apply_loop [] st = st"
  by (simp add: apply_loop_def)

lemma fst_apply_step:
  "fst (apply_step (c, n) (k, v)) =
     (if is_placeholder v \<or> \<not> sublist k c then c else py_replace c k (escape_quotes v))"
  by (simp add: apply_step_def Let_def py_count_pos)

lemma apply_step_absent: "is_placeholder v \<or> \<not> sublist k c \<Longrightarrow> apply_step (c, n) (k, v) = (c, n)"
  using py_count_pos[of c k] by (auto simp: apply_step_def Let_def)

lemma loop_no_occurrence:
  "compatible S \<Longrightarrow> set es \<subseteq> set S \<Longrightarrow> (k, v) \<in> set es \<Longrightarrow> \<not> is_placeholder v
   \<Longrightarrow> \<not> sublist k (fst (apply_loop es st))"
proof (induction es rule: rev_induct)
  case Nil
  then show ?case by simp
next
  case (snoc x es)
  obtain c n where st': "apply_loop es st = (c, n)" by (cases "apply_loop es st")
  obtain k' v' where x: "x = (k', v')" by (cases x)
  from snoc.prems have x_in: "(k', v') \<in> set S" and kv_in: "(k, v) \<in> set S" using x by auto
  show ?case
  proof (cases "is_placeholder v' \<or> \<not> sublist k' c")
    case True
    then have same: "fst (apply_loop (es @ [x]) st) = c"
      by (simp add: apply_loop_snoc st' x fst_apply_step)
    show ?thesis
    proof (cases "(k, v) = x")
      case True
      with \<open>is_placeholder v' \<or> \<not> sublist k' c\<close> snoc.prems(4) x same show ?thesis by auto
    next
      case False
      with snoc.prems have "(k, v) \<in> set es" by auto
      with snoc.IH snoc.prems st' have "\<not> sublist k c" by auto
      with same show ?thesis by simp
    qed
  next
    case False
    then have valid': "\<not> is_placeholder v'" and occ: "sublist k' c" by auto
    from snoc.prems(1) x_in valid' have "apart k' (escape_quotes v')"
      unfolding compatible_def by blast
    then have k'ne: "k' \<noteq> []" by (simp add: apart_def)
    have res: "fst (apply_loop (es @ [x]) st) = replace_ne c k' (escape_quotes v')"
      using False k'ne by (simp add: apply_loop_snoc st' x fst_apply_step py_replace_def)
    from snoc.prems(1,4) x_in kv_in valid' have cl: "apart k (escape_quotes v')"
      unfolding compatible_def by blast
    have "k = k' \<or> \<not> sublist k c"
    proof (cases "(k, v) = x")
      case True
      with x show ?thesis by simp
    next
      case False
      with snoc.prems have "(k, v) \<in> set es" by auto
      with snoc.IH snoc.prems st' show ?thesis by auto
    qed
    with cl k'ne res show ?thesis using no_sublist_replace_ne by simp
  qed
qed

lemma loop_identity:
  "(\<forall>(k, v) \<in> set es. \<not> is_placeholder v \<longrightarrow> \<not> sublist k c) \<Longrightarrow> apply_loop es (c, n) = (c, n)"
  by (induction es) (auto simp: apply_loop_Cons apply_loop_Nil apply_step_absent)

lemma set_sorted_translations: "set (sorted_translations t) = set t"
  by (simp add: sorted_translations_def)

lemma sublist_same_length: "sublist xs ys \<Longrightarrow> length ys \<le> length xs \<Longrightarrow> xs = ys"
  by (auto simp: sublist_def)

lemma py_count_self: "py_count k k = 1"
  by (cases k) (simp_all add: py_count_def)

lemma py_replace_self: "py_replace k k e = e"
  by (cases k) (simp_all add: py_replace_def)

lemma apply_step_self:
  "\<not> is_placeholder v \<Longrightarrow> apply_step (k, n) (k, v) = (escape_quotes v, n + 1)"
  by (simp add: apply_step_def py_count_self py_replace_self)

lemma loop_whole_key:
  assumes "sorted (map (\<lambda>x. - int (length (fst x))) zs)"
    and "(k, v) \<in> set zs" and "\<forall>e\<in>set zs. fst e = k \<longrightarrow> snd e = v"
    and "\<not> is_placeholder v"
  shows "apply_loop zs (k, n)
         = apply_loop (tl (dropWhile (\<lambda>e. fst e \<noteq> k) zs)) (escape_quotes v, n + 1)"
  using assms
proof (induction zs)
  case Nil
  then show ?case by simp
next
  case (Cons e zs)
  obtain k' v' where e: "e = (k', v')" by (cases e)
  show ?case
  proof (cases "k' = k")
    case True
    with Cons.prems(3) e have "v' = v" by simp
    with True e Cons.prems(4) show ?thesis
      by (simp add: apply_loop_Cons apply_step_self)
  next
    case False
    with Cons.prems(2) e have in_rest: "(k, v) \<in> set zs" by auto
    from Cons.prems(1) in_rest e have "length k \<le> length k'" by force
    with False have "\<not> sublist k' k" using sublist_same_length by blast
    then have "apply_step (k, n) (k', v') = (k, n)" by (simp add: apply_step_absent)
    moreover have "apply_loop zs (k, n)
         = apply_loop (tl (dropWhile (\<lambda>e. fst e \<noteq> k) zs)) (escape_quotes v, n + 1)"
      using Cons.IH Cons.prems in_rest by simp
    ultimately show ?thesis using False e by (simp add: apply_loop_Cons)
  qed
qed

lemma sorted_sorted_translations:
  "sorted (map (\<lambda>x. - int (length (fst x))) (sorted_translations t))"
  by (simp add: sorted_translations_def)

lemma descending_sorted_translations:
  "sorted_wrt (\<lambda>a b. length (fst a) \<ge> length (fst b)) (sorted_translations t)"
  using sorted_sorted_translations[of t] by (simp add: sorted_map sorted_wrt_iff_nth_less)

lemma stable_sorted_translations:
  "filter (\<lambda>e. length (fst e) = n) (sorted_translations t) = filter (\<lambda>e. length (fst e) = n) t"
  using sort_key_stable[of "\<lambda>x. - int (length (fst x))" "- int n" t]
  by (simp add: sorted_translations_def)

lemma distinct_keys_unique:
  "distinct (map fst t) \<Longrightarrow> (k, v) \<in> set t \<Longrightarrow> \<forall>e\<in>set t. fst e = k \<longrightarrow> snd e = v"
  by (metis eq_key_imp_eq_value prod.collapse)

lemma whole_key:
  assumes "distinct (map fst t)" "(k, v) \<in> set t" "\<not> is_placeholder v"
  shows "apply_translations_to_content t k
         = apply_loop (tl (dropWhile (\<lambda>e. fst e \<noteq> k) (sorted_translations t))) (escape_quotes v, 1)"
  unfolding apply_translations_to_content_def
  using loop_whole_key[OF sorted_sorted_translations, of k v t 0] distinct_keys_unique[OF assms(1,2)] assms
  by (simp add: set_sorted_translations)

lemma rest_not_longer:
  assumes "(k, v) \<in> set t"
  shows "\<forall>e\<in>set (tl (dropWhile (\<lambda>e. fst e \<noteq> k) (sorted_translations t))). length (fst e) \<le> length k"
proof -
  let ?zs = "sorted_translations t"
  let ?d = "dropWhile (\<lambda>e. fst e \<noteq> k) ?zs"
  have "(k, v) \<in> set ?zs" using assms by (simp add: set_sorted_translations)
  then have ne: "?d \<noteq> []" by (force simp: dropWhile_eq_Nil_conv)
  then have hd: "fst (hd ?d) = k" using hd_dropWhile[of "\<lambda>e. fst e \<noteq> k" ?zs] by simp
  have "sorted_wrt (\<lambda>a b. length (fst a) \<ge> length (fst b)) (takeWhile (\<lambda>e. fst e \<noteq> k) ?zs @ ?d)"
    using descending_sorted_translations[of t] by simp
  then have "sorted_wrt (\<lambda>a b. length (fst a) \<ge> length (fst b)) ?d"
    unfolding sorted_wrt_append by blast
  with ne hd show ?thesis by (cases ?d) auto
qed

lemma apply_loop_filter:
  "apply_loop (filter (\<lambda>(k, v). \<not> is_placeholder v) es) st = apply_loop es st"
proof (induction es arbitrary: st)
  case Nil
  then show ?case by simp
next
  case (Cons e es)
  obtain k v where e: "e = (k, v)" by (cases e)
  obtain c n where st: "st = (c, n)" by (cases st)
  show ?case using Cons.IH e st by (simp add: apply_loop_Cons apply_step_absent)
qed

lemma content_filter:
  "apply_translations_to_content (filter (\<lambda>(k, v). \<not> is_placeholder v) t) c
   = apply_translations_to_content t c"
  by (simp add: apply_translations_to_content_def sorted_translations_def
      filter_sort[symmetric] apply_loop_filter)

section \<open>Lemmas on dictionaries and files\<close>

lemma dict_update_Nil: "dict_update d [] = d"
  by (simp add: dict_update_def)

lemma dict_update_Cons: "dict_update d ((k, v) # rest) = dict_update (AList.update k v d) rest"
  by (simp add: dict_update_def)

lemma map_of_dict_update:
  "distinct (map fst other) \<Longrightarrow> map_of (dict_update d other) = map_of d ++ map_of other"
proof (induction other arbitrary: d)
  case Nil
  then show ?case by (simp add: dict_update_Nil)
next
  case (Cons e rest)
  obtain k v where e: "e = (k, v)" by (cases e)
  from Cons.prems e have k: "map_of rest k = None" and d: "distinct (map fst rest)"
    by (auto simp: map_of_eq_None_iff)
  have "map_of (dict_update d (e # rest)) = (map_of d)(k \<mapsto> v) ++ map_of rest"
    using Cons.IH[OF d, of "AList.update k v d"] e
    by (simp only: dict_update_Cons update_conv')
  also have "\<dots> = map_of d ++ map_of (e # rest)"
    using k e by (auto simp: map_add_def fun_eq_iff split: option.splits)
  finally show ?case .
qed

lemma keys_dict_update: "fst ` set (dict_update d other) = fst ` set d \<union> fst ` set other"
proof (induction other arbitrary: d)
  case Nil
  then show ?case by (simp add: dict_update_Nil)
next
  case (Cons e rest)
  obtain k v where e: "e = (k, v)" by (cases e)
  show ?case using Cons.IH[of "AList.update k v d"] e
    by (auto simp: dict_update_Cons dom_update)
qed

lemma distinct_dict_update:
  "distinct (map fst d) \<Longrightarrow> distinct (map fst (dict_update d other))"
proof (induction other arbitrary: d)
  case Nil
  then show ?case by (simp add: dict_update_Nil)
next
  case (Cons e rest)
  obtain k v where e: "e = (k, v)" by (cases e)
  show ?case using Cons.IH[of "AList.update k v d"] Cons.prems e
    by (simp add: dict_update_Cons distinct_update)
qed

lemma extract_sample: "extract_chinese_strings [20320, 22909] = {[20320, 22909]}"
  by (auto simp add: extract_chinese_strings_def is_cjk_def py_strip_def py_isspace_def)

lemma scan_sample: "scan_directory sample_os (sample_fs [1]) ''src'' = {[20320, 22909]}"
  by (simp add: scan_directory_def sample_os_def sample_fs_def extract_chinese_strings_from_file_def
     encodings_def read_text_def extract_sample)

lemma read_first_find:
  "fs file_path = Some raw \<Longrightarrow>
   read_first os fs file_path encs
   = Inr (map_option (\<lambda>enc. (the (decode os enc raw), enc)) (find (\<lambda>enc. decode os enc raw \<noteq> None) encs))"
  by (induction encs) (auto simp: read_text_def split: option.splits)

lemma read_first_missing:
  "fs file_path = None \<Longrightarrow> encs \<noteq> [] \<Longrightarrow> read_first os fs file_path encs = Inl FileNotFoundError"
  by (cases encs) (auto simp: read_text_def)

section \<open>Lemmas on the Translator and on the extraction\<close>






lemma routed_remote_calls:
  "routed_remote ((if long \<noteq> [] then [RemoteCall long] else []) @ map LocalCall short) s
   \<longleftrightarrow> s \<in> set long"
  by (cases "long = []") (auto simp: routed_remote_def list_ex_iff)

lemma routed_local_calls:
  "routed_local ((if long \<noteq> [] then [RemoteCall long] else []) @ map LocalCall short) s
   \<longleftrightarrow> s \<in> set short"
  by (cases "long = []") (auto simp: routed_local_def list_ex_iff)

lemma cjk_middle: "is_cjk c \<Longrightarrow> in_middle_class c"
  by (simp add: in_middle_class_def)

lemma cjk_not_space: "is_cjk c \<Longrightarrow> \<not> py_isspace c"
  by (auto simp: is_cjk_def py_isspace_def)

lemma latin_not_middle: "is_latin_letter c \<Longrightarrow> \<not> in_middle_class c"
  by (auto simp: is_latin_letter_def in_middle_class_def is_cjk_def py_isspace_def is_chinese_punct_def)

lemma star_cjk_Some:
  "star_cjk xs = Some n \<Longrightarrow>
     0 < n \<and> n \<le> length xs \<and> is_cjk (xs ! (n - 1)) \<and> (\<forall>c\<in>set (take n xs). in_middle_class c)"
proof (induction xs arbitrary: n)
  case Nil
  then show ?case by simp
next
  case (Cons x xs)
  show ?case
  proof (cases "star_cjk xs")
    case None
    with Cons.prems have "is_cjk x" and "n = 1" by (auto split: if_splits)
    then show ?thesis by (simp add: cjk_middle)
  next
    case (Some m)
    show ?thesis
    proof (cases "in_middle_class x")
      case True
      with Some Cons.prems have n: "n = Suc m" by simp
      from Cons.IH[OF Some] have "0 < m" "m \<le> length xs" "is_cjk (xs ! (m - 1))"
        "\<forall>c\<in>set (take m xs). in_middle_class c" by auto
      with n True show ?thesis by (cases m) auto
    next
      case False
      with Cons.prems have "is_cjk x" and "n = 1" by (auto split: if_splits)
      then show ?thesis by (simp add: cjk_middle)
    qed
  qed
qed

lemma findall_pattern1_match:
  "m \<in> set (findall_pattern1 content) \<Longrightarrow>
     m \<noteq> [] \<and> is_cjk (hd m) \<and> is_cjk (last m) \<and> (\<forall>c\<in>set m. in_middle_class c)"
proof (induction content rule: findall_pattern1.induct)
  case 1
  then show ?case by simp
next
  case (2 x xs)
  show ?case
  proof (cases "is_cjk x")
    case False
    with 2 show ?thesis by simp
  next
    case True
    show ?thesis
    proof (cases "star_cjk xs")
      case None
      with True "2.prems" have "m = [x] \<or> m \<in> set (findall_pattern1 xs)" by auto
      then show ?thesis
      proof
        assume "m = [x]"
        with True show ?thesis by (simp add: cjk_middle)
      next
        assume "m \<in> set (findall_pattern1 xs)"
        with "2.IH" True None show ?thesis by simp
      qed
    next
      case (Some n)
      with True "2.prems" have "m = x # take n xs \<or> m \<in> set (findall_pattern1 (drop n xs))"
        by auto
      then show ?thesis
      proof
        assume m: "m = x # take n xs"
        from star_cjk_Some[OF Some] have n: "0 < n" "n \<le> length xs" "is_cjk (xs ! (n - 1))"
          and mid: "\<forall>c\<in>set (take n xs). in_middle_class c" by auto
        from n have "take n xs \<noteq> []" by auto
        then have "last m = last (take n xs)" using m by simp
        also have "\<dots> = take n xs ! (n - 1)"
          using n \<open>take n xs \<noteq> []\<close> by (simp add: last_conv_nth min_def)
        also have "\<dots> = xs ! (n - 1)" using n by (intro nth_take) simp
        finally have "is_cjk (last m)" using n by simp
        with m True mid show ?thesis by (simp add: cjk_middle)
      next
        assume "m \<in> set (findall_pattern1 (drop n xs))"
        with "2.IH" True Some show ?thesis by simp
      qed
    qed
  qed
qed

lemma findall_pattern2_match:
  "m \<in> set (findall_pattern2 content) \<Longrightarrow> m \<noteq> [] \<and> (\<forall>c\<in>set m. is_cjk c)"
proof (induction content rule: findall_pattern2.induct)
  case 1
  then show ?case by simp
next
  case (2 x xs)
  show ?case
  proof (cases "is_cjk x")
    case False
    with 2 show ?thesis by simp
  next
    case True
    with "2.prems" have "m = x # takeWhile is_cjk xs \<or> m \<in> set (findall_pattern2 (dropWhile is_cjk xs))"
      by auto
    then show ?thesis
    proof
      assume "m = x # takeWhile is_cjk xs"
      with True show ?thesis by (auto dest: set_takeWhileD)
    next
      assume "m \<in> set (findall_pattern2 (dropWhile is_cjk xs))"
      with "2.IH" True show ?thesis by simp
    qed
  qed
qed

lemma py_strip_id: "m \<noteq> [] \<Longrightarrow> \<not> py_isspace (hd m) \<Longrightarrow> \<not> py_isspace (last m) \<Longrightarrow> py_strip m = m"
proof -
  assume m: "m \<noteq> []" and h: "\<not> py_isspace (hd m)" and l: "\<not> py_isspace (last m)"
  from m h have 1: "dropWhile py_isspace m = m" by (cases m) auto
  from m l have "\<not> py_isspace (hd (rev m))" by (simp add: hd_rev)
  with m have 2: "dropWhile py_isspace (rev m) = rev m" by (cases "rev m") auto
  show ?thesis by (simp add: py_strip_def 1 2)
qed

lemma match_props:
  assumes "m \<in> set (findall_pattern1 content @ findall_pattern2 content)"
  shows "m \<noteq> [] \<and> is_cjk (hd m) \<and> is_cjk (last m) \<and> (\<forall>c\<in>set m. in_middle_class c)"
proof -
  from assms consider "m \<in> set (findall_pattern1 content)" | "m \<in> set (findall_pattern2 content)"
    by auto
  then show ?thesis
  proof cases
    case 1
    then show ?thesis by (rule findall_pattern1_match)
  next
    case 2
    from findall_pattern2_match[OF 2] have "m \<noteq> []" and a: "\<forall>c\<in>set m. is_cjk c" by auto
    then show ?thesis by (auto simp: cjk_middle)
  qed
qed

lemma findall_pattern1_sample: "findall_pattern1 ([97, 31995, 32479, 32, 35774, 32622, 65292, 98, 22909, 32, 99])
     = [[31995, 32479, 32, 35774, 32622], [22909]]"
  by (simp add: is_cjk_def in_middle_class_def py_isspace_def is_chinese_punct_def)

lemma findall_pattern2_sample: "findall_pattern2 ([97, 31995, 32479, 32, 35774, 32622, 65292, 98, 22909, 32, 99])
     = [[31995, 32479], [35774, 32622], [22909]]"
  by (simp add: is_cjk_def)

lemma replace_ne_first_occurrence:
  "k \<noteq> [] \<Longrightarrow> \<not> sublist k (pre @ butlast k)
   \<Longrightarrow> replace_ne (pre @ k @ post) k e = pre @ e @ replace_ne post k e"
proof (induction pre)
  case Nil
  then obtain x xs where k: "k = x # xs" by (cases k) auto
  have "replace_ne ((x # xs) @ post) (x # xs) e
        = e @ replace_ne (drop (length (x # xs)) ((x # xs) @ post)) (x # xs) e"
    by (simp del: drop_Suc_Cons)
  then show ?case using k by simp
next
  case (Cons x pre)
  have np: "\<not> prefix k (x # pre @ k @ post)"
  proof
    assume p: "prefix k (x # pre @ k @ post)"
    have "butlast k @ [last k] = k" using Cons.prems(1) by simp
    then have "x # pre @ k @ post = (x # pre @ butlast k) @ (last k # post)"
      by (metis append.assoc append_Cons append_Nil)
    with p have "prefix k ((x # pre @ butlast k) @ (last k # post))" by simp
    then have "prefix k (x # pre @ butlast k)
               \<or> (\<exists>us. k = (x # pre @ butlast k) @ us \<and> prefix us (last k # post))"
      by (simp only: prefix_append)
    then have "prefix k (x # pre @ butlast k)"
    proof
      assume "prefix k (x # pre @ butlast k)"
      then show ?thesis .
    next
      assume "\<exists>us. k = (x # pre @ butlast k) @ us \<and> prefix us (last k # post)"
      then obtain us where us: "k = (x # pre @ butlast k) @ us" by blast
      then have "length k = length (x # pre @ butlast k) + length us"
        by (metis length_append)
      moreover have "0 < length k" using Cons.prems(1) by simp
      ultimately have "length us = 0" by simp
      then have "us = []" by simp
      with us show ?thesis by simp
    qed
    then have "sublist k ((x # pre) @ butlast k)" by (auto dest: prefix_imp_sublist)
    with Cons.prems(2) show False by simp
  qed
  have "\<not> sublist k (pre @ butlast k)"
    using Cons.prems(2) by (auto simp: sublist_Cons_right)
  with Cons.IH Cons.prems(1) have "replace_ne (pre @ k @ post) k e = pre @ e @ replace_ne post k e"
    by simp
  with np show ?case by simp
qed

section \<open>Lemmas on the whole loop, on two runs and on the run of the Translator\<close>

lemma py_replace_absent: "\<not> sublist k c \<Longrightarrow> py_replace c k e = c"
proof -
  assume a: "\<not> sublist k c"
  then have "k \<noteq> []" by auto
  with a show ?thesis by (simp add: py_replace_def replace_ne_absent)
qed

lemma fst_apply_step_replace:
  "fst (apply_step (c, n) (k, v))
   = (if is_placeholder v then c else py_replace c k (escape_quotes v))"
  by (simp add: fst_apply_step py_replace_absent)

lemma fst_apply_loop:
  "fst (apply_loop es st)
   = foldl (\<lambda>c (k, v). py_replace c k (escape_quotes v)) (fst st)
       (filter (\<lambda>(k, v). \<not> is_placeholder v) es)"
proof (induction es arbitrary: st)
  case Nil
  then show ?case by (simp add: apply_loop_Nil)
next
  case (Cons e es)
  obtain k v where e: "e = (k, v)" by (cases e)
  obtain c n where st: "st = (c, n)" by (cases st)
  have "fst (apply_loop (e # es) st)
        = foldl (\<lambda>c (k, v). py_replace c k (escape_quotes v)) (fst (apply_step (c, n) (k, v)))
            (filter (\<lambda>(k, v). \<not> is_placeholder v) es)"
    using Cons.IH[of "apply_step (c, n) (k, v)"] e st by (simp add: apply_loop_Cons)
  then show ?case using e st by (simp add: fst_apply_step_replace)
qed

lemma fst_apply_content:
  "fst (apply_translations_to_content t content)
   = foldl (\<lambda>c (k, v). py_replace c k (escape_quotes v)) content
       (filter (\<lambda>(k, v). \<not> is_placeholder v) (sorted_translations t))"
  by (simp add: apply_translations_to_content_def fst_apply_loop)

lemma sorted_split:
  assumes "distinct (map fst t)" "(k, v) \<in> set t"
  shows "sorted_translations t
         = takeWhile (\<lambda>e. fst e \<noteq> k) (sorted_translations t)
           @ (k, v) # tl (dropWhile (\<lambda>e. fst e \<noteq> k) (sorted_translations t))"
proof -
  let ?zs = "sorted_translations t"
  let ?d = "dropWhile (\<lambda>e. fst e \<noteq> k) ?zs"
  have in_zs: "(k, v) \<in> set ?zs" using assms(2) by (simp add: set_sorted_translations)
  then have ne: "?d \<noteq> []" by (force simp: dropWhile_eq_Nil_conv)
  then have hd: "fst (hd ?d) = k" using hd_dropWhile[of "\<lambda>e. fst e \<noteq> k" ?zs] by simp
  have "hd ?d \<in> set ?zs" using ne by (metis hd_in_set set_dropWhileD)
  then have "hd ?d \<in> set t" by (simp add: set_sorted_translations)
  with distinct_keys_unique[OF assms] hd have "snd (hd ?d) = v" by blast
  with hd have "hd ?d = (k, v)" by (metis prod.collapse)
  with ne have "?d = (k, v) # tl ?d" by (metis list.collapse)
  then show ?thesis by (metis takeWhile_dropWhile_id)
qed

lemma before_not_shorter:
  assumes "(k, v) \<in> set t"
  shows "\<forall>e\<in>set (takeWhile (\<lambda>e. fst e \<noteq> k) (sorted_translations t)). length k \<le> length (fst e)"
proof -
  let ?zs = "sorted_translations t"
  let ?d = "dropWhile (\<lambda>e. fst e \<noteq> k) ?zs"
  have "(k, v) \<in> set ?zs" using assms by (simp add: set_sorted_translations)
  then have ne: "?d \<noteq> []" by (force simp: dropWhile_eq_Nil_conv)
  then have hd: "fst (hd ?d) = k" using hd_dropWhile[of "\<lambda>e. fst e \<noteq> k" ?zs] by simp
  have "sorted_wrt (\<lambda>a b. length (fst a) \<ge> length (fst b)) (takeWhile (\<lambda>e. fst e \<noteq> k) ?zs @ ?d)"
    using descending_sorted_translations[of t] by simp
  then have "\<forall>x\<in>set (takeWhile (\<lambda>e. fst e \<noteq> k) ?zs). \<forall>y\<in>set ?d. length (fst y) \<le> length (fst x)"
    unfolding sorted_wrt_append by blast
  moreover have "hd ?d \<in> set ?d" using ne by simp
  ultimately show ?thesis using hd by metis
qed

lemma loop_at_key:
  assumes "distinct (map fst t)" "(k, v) \<in> set t" "\<not> is_placeholder v"
  shows "fst (apply_translations_to_content t content)
         = foldl (\<lambda>c (k, v). py_replace c k (escape_quotes v))
             (py_replace
                (foldl (\<lambda>c (k, v). py_replace c k (escape_quotes v)) content
                   (filter (\<lambda>(k, v). \<not> is_placeholder v)
                      (takeWhile (\<lambda>e. fst e \<noteq> k) (sorted_translations t))))
                k (escape_quotes v))
             (filter (\<lambda>(k, v). \<not> is_placeholder v)
                (tl (dropWhile (\<lambda>e. fst e \<noteq> k) (sorted_translations t))))"
proof -
  let ?b = "takeWhile (\<lambda>e. fst e \<noteq> k) (sorted_translations t)"
  let ?a = "tl (dropWhile (\<lambda>e. fst e \<noteq> k) (sorted_translations t))"
  let ?V = "filter (\<lambda>(k, v). \<not> is_placeholder v)"
  have "sorted_translations t = ?b @ (k, v) # ?a" by (rule sorted_split[OF assms(1,2)])
  then have "?V (sorted_translations t) = ?V (?b @ (k, v) # ?a)" by simp
  also have "\<dots> = ?V ?b @ (k, v) # ?V ?a" using assms(3) by simp
  finally show ?thesis by (simp add: fst_apply_content)
qed

lemma replace_ne_skip:
  "k \<noteq> [] \<Longrightarrow> hd k \<notin> set e \<Longrightarrow> replace_ne (e @ b) k e' = e @ replace_ne b k e'"
proof (induction e)
  case Nil
  then show ?case by simp
next
  case (Cons y e)
  have "\<not> prefix k (y # e @ b)"
  proof
    assume "prefix k (y # e @ b)"
    with Cons.prems(1) have "hd k = y" by (cases k) auto
    with Cons.prems(2) show False by simp
  qed
  with Cons show ?case by simp
qed

lemma prefix_stops_at_barrier:
  assumes "apart k e" "prefix k (a @ e @ b)" "a \<noteq> []"
  shows "prefix k a"
proof -
  from assms(1) have kne: "k \<noteq> []" and lastk: "last k \<notin> set e"
    and ex: "\<exists>c\<in>set e. c \<notin> set k" by (auto simp: apart_def)
  from assms(2) have "prefix k a \<or> (\<exists>us. k = a @ us \<and> prefix us (e @ b))"
    by (simp only: prefix_append)
  then show ?thesis
  proof
    assume "prefix k a"
    then show ?thesis .
  next
    assume "\<exists>us. k = a @ us \<and> prefix us (e @ b)"
    then obtain us where k: "k = a @ us" and us: "prefix us (e @ b)" by blast
    show ?thesis
    proof (cases "us = []")
      case True
      with k show ?thesis by simp
    next
      case False
      from us have "prefix us e \<or> (\<exists>vs. us = e @ vs \<and> prefix vs b)"
        by (simp only: prefix_append)
      then show ?thesis
      proof
        assume "prefix us e"
        then have "set us \<subseteq> set e" by (rule set_mono_prefix)
        moreover have "last k = last us" using k False by simp
        moreover have "last us \<in> set us" using False by simp
        ultimately show ?thesis using lastk by auto
      next
        assume "\<exists>vs. us = e @ vs \<and> prefix vs b"
        then obtain vs where "us = e @ vs" by blast
        with k have "set e \<subseteq> set k" by auto
        with ex show ?thesis by blast
      qed
    qed
  qed
qed

lemma replace_ne_barrier:
  "apart k e \<Longrightarrow> replace_ne (a @ e @ b) k e' = replace_ne a k e' @ e @ replace_ne b k e'"
proof (induction a k e' rule: replace_ne.induct)
  case (1 old new)
  then show ?case using replace_ne_skip[of old e b new] by (simp add: apart_def)
next
  case (2 x xs old new)
  from "2.prems" have kne: "old \<noteq> []" by (simp add: apart_def)
  show ?case
  proof (cases "prefix old (x # xs)")
    case True
    then have p: "prefix old ((x # xs) @ e @ b)" by (rule prefix_prefix)
    from True have len: "length old \<le> length (x # xs)" by (rule prefix_length_le)
    have "replace_ne ((x # xs) @ e @ b) old new
          = new @ replace_ne (drop (length old) ((x # xs) @ e @ b)) old new"
      using p kne by (simp del: drop_Suc_Cons)
    also have "drop (length old) ((x # xs) @ e @ b) = drop (length old) (x # xs) @ e @ b"
    proof -
      have "drop (length old) ((x # xs) @ (e @ b))
            = drop (length old) (x # xs) @ drop (length old - length (x # xs)) (e @ b)"
        by (rule drop_append)
      moreover have "length old - length (x # xs) = 0" using len by simp
      ultimately show ?thesis by (simp only: drop0)
    qed
    also have "replace_ne (drop (length old) (x # xs) @ e @ b) old new
          = replace_ne (drop (length old) (x # xs)) old new @ e @ replace_ne b old new"
      using "2.IH"(1) True kne "2.prems" by simp
    finally show ?thesis using True kne by (simp del: drop_Suc_Cons)
  next
    case False
    have "\<not> prefix old ((x # xs) @ e @ b)"
      using prefix_stops_at_barrier[OF "2.prems", of "x # xs" b] False by blast
    then have "replace_ne ((x # xs) @ e @ b) old new = x # replace_ne (xs @ e @ b) old new"
      by simp
    also have "replace_ne (xs @ e @ b) old new = replace_ne xs old new @ e @ replace_ne b old new"
      using "2.IH"(2) False "2.prems" by simp
    finally show ?thesis using False by simp
  qed
qed

lemma fold_barrier:
  "\<forall>(k', v') \<in> set es. apart k' e \<Longrightarrow>
   foldl (\<lambda>c (k, v). py_replace c k (f v)) (a @ e @ b) es
   = foldl (\<lambda>c (k, v). py_replace c k (f v)) a es @ e
     @ foldl (\<lambda>c (k, v). py_replace c k (f v)) b es"
proof (induction es arbitrary: a b)
  case Nil
  then show ?case by simp
next
  case (Cons x es)
  obtain k' v' where x: "x = (k', v')" by (cases x)
  from Cons.prems x have ap: "apart k' e" and rest: "\<forall>(k', v') \<in> set es. apart k' e" by auto
  then have kne: "k' \<noteq> []" by (simp add: apart_def)
  have "py_replace (a @ e @ b) k' (f v') = py_replace a k' (f v') @ e @ py_replace b k' (f v')"
    using kne replace_ne_barrier[OF ap] by (simp add: py_replace_def)
  with Cons.IH[OF rest] x show ?case by simp
qed

lemma first_occurrence_whole:
  assumes "distinct (map fst t)" "(k, v) \<in> set t" "\<not> is_placeholder v" "compatible t"
    and "foldl (\<lambda>c (k, v). py_replace c k (escape_quotes v)) content
           (filter (\<lambda>(k, v). \<not> is_placeholder v)
              (takeWhile (\<lambda>e. fst e \<noteq> k) (sorted_translations t)))
         = pre @ k @ post"
    and "\<not> sublist k (pre @ butlast k)"
  shows "fst (apply_translations_to_content t content)
         = foldl (\<lambda>c (k, v). py_replace c k (escape_quotes v)) pre
             (filter (\<lambda>(k, v). \<not> is_placeholder v)
                (tl (dropWhile (\<lambda>e. fst e \<noteq> k) (sorted_translations t))))
           @ escape_quotes v
           @ foldl (\<lambda>c (k, v). py_replace c k (escape_quotes v))
               (py_replace post k (escape_quotes v))
               (filter (\<lambda>(k, v). \<not> is_placeholder v)
                  (tl (dropWhile (\<lambda>e. fst e \<noteq> k) (sorted_translations t))))"
proof -
  let ?a = "filter (\<lambda>(k, v). \<not> is_placeholder v)
              (tl (dropWhile (\<lambda>e. fst e \<noteq> k) (sorted_translations t)))"
  from assms(2,3,4) have "apart k (escape_quotes v)" unfolding compatible_def by blast
  then have kne: "k \<noteq> []" by (simp add: apart_def)
  have r: "py_replace (pre @ k @ post) k (escape_quotes v)
           = pre @ escape_quotes v @ py_replace post k (escape_quotes v)"
    using kne assms(6) by (simp add: py_replace_def replace_ne_first_occurrence)
  have "set ?a \<subseteq> set t"
    using set_sorted_translations[of t]
    by (metis (no_types, lifting) filter_is_subset list.set_sel(2) set_dropWhileD subsetI subset_trans tl_Nil)
  then have b: "\<forall>(k', v') \<in> set ?a. apart k' (escape_quotes v)"
    using assms(2,3,4) unfolding compatible_def by fastforce
  show ?thesis
    unfolding loop_at_key[OF assms(1,2,3)] assms(5) r
    by (rule fold_barrier[OF b])
qed

lemma whole_key_fold:
  assumes "distinct (map fst t)" "(k, v) \<in> set t" "\<not> is_placeholder v"
  shows "fst (apply_translations_to_content t k)
         = foldl (\<lambda>c (k, v). py_replace c k (escape_quotes v)) (escape_quotes v)
             (filter (\<lambda>(k, v). \<not> is_placeholder v)
                (tl (dropWhile (\<lambda>e. fst e \<noteq> k) (sorted_translations t))))"
  by (simp add: whole_key[OF assms] fst_apply_loop)

lemma file_run_keeps_store:
  "apply_translations_to_file os app fs p = (changed, app1, fs1)
   \<Longrightarrow> translations_dict app1 = translations_dict app"
  by (auto simp: apply_translations_to_file_def split: sum.splits option.splits prod.splits if_splits)

lemma file_run_unchanged_object:
  "apply_translations_to_file os app fs p = (False, app1, fs1) \<Longrightarrow> app1 = app"
  by (auto simp: apply_translations_to_file_def split: sum.splits option.splits prod.splits if_splits)

lemmas eval_content = apply_translations_to_content_def sorted_translations_def apply_loop_def
        apply_step_def is_placeholder_def startswith_def endswith_def suffix_to_prefix
        py_count_def py_replace_def escape_quotes_def Let_def

lemma update_fresh: "k \<notin> fst ` set d \<Longrightarrow> AList.update k v d = d @ [(k, v)]"
  by (induction d) auto

lemma dict_update_fresh:
  "distinct (map fst other) \<Longrightarrow> fst ` set d \<inter> fst ` set other = {}
   \<Longrightarrow> dict_update d other = d @ other"
proof (induction other arbitrary: d)
  case Nil
  then show ?case by (simp add: dict_update_Nil)
next
  case (Cons e rest)
  obtain k v where e: "e = (k, v)" by (cases e)
  from Cons.prems e have k: "k \<notin> fst ` set d" and kr: "k \<notin> fst ` set rest"
    and d: "distinct (map fst rest)" and i: "fst ` set d \<inter> fst ` set rest = {}"
    by auto
  have "dict_update d (e # rest) = dict_update (d @ [(k, v)]) rest"
    using e k by (simp add: dict_update_Cons update_fresh)
  also have "\<dots> = (d @ [(k, v)]) @ rest"
    using d i kr by (intro Cons.IH) auto
  finally show ?case using e by simp
qed

lemma merge_empty: "distinct (map fst other) \<Longrightarrow> merge [] other = other"
  using dict_update_fresh[of other "[]"] by (simp add: merge_def)

lemma distinct_argos_all:
  "distinct (map fst d) \<Longrightarrow> distinct (map fst (argos_all tr be ss d))"
  unfolding argos_all_def
  by (induction ss arbitrary: d) (auto simp: distinct_update)

lemma distinct_google_loop:
  "distinct (map fst d) \<Longrightarrow> google_loop be bs d = Some d' \<Longrightarrow> distinct (map fst d')"
proof (induction bs arbitrary: d)
  case Nil
  then show ?case by simp
next
  case (Cons batch rest)
  show ?case
  proof (cases "google_post be batch")
    case (Ok200 ts)
    with Cons.prems(2)
    have "google_loop be rest (dict_update d (batch_entries batch ts)) = Some d'" by simp
    with Cons.IH distinct_dict_update[OF Cons.prems(1)] show ?thesis by blast
  next
    case Failed
    with Cons.prems(2)
    have "google_loop be rest
            (dict_update d (map (\<lambda>original. (original, bracket ''GOOGLE_API_ERROR'' original)) batch))
          = Some d'" by simp
    with Cons.IH distinct_dict_update[OF Cons.prems(1)] show ?thesis by blast
  next
    case Raises
    with Cons.prems(2) show ?thesis by simp
  qed
qed

lemma distinct_translate_batch:
  "distinct (map fst (translate_batch_with_google_api tr be ss))"
proof -
  have e: "distinct (map fst ([] :: store))" by simp
  show ?thesis
    unfolding translate_batch_with_google_api_def
    using distinct_dict_update[OF e] distinct_google_loop[OF e]
    by (auto split: option.splits)
qed

lemma distinct_translate_all: "distinct (map fst (fst (translate_all tr be ss)))"
proof -
  have e: "distinct (map fst ([] :: store))" by simp
  note d = distinct_argos_all[OF e] distinct_translate_batch distinct_dict_update[OF e]
  have g: "distinct (map fst (if long \<noteq> []
             then dict_update [] (translate_batch_with_google_api tr be long) else []))" for long
    using d by simp
  show ?thesis
    unfolding translate_all_def Let_def
    using d g distinct_argos_all by auto
qed

lemma read_first_mini_sample: "read_first mini_os [''src/a.js'' \<mapsto> [0xC4, 0xE3]] ''src/a.js'' encodings
    = Inr (Some ([0x4F60], GBK))"
  by (simp add: encodings_def read_text_def mini_os_def)

section \<open>Properties of the Applicator\<close>

text \<open>
  Claim C1, as amended. The Applicator substitutes the keys whose value is not a
  placeholder in descending order of key length, keys of equal length in the order of
  the store: its result is the content after \<^verbatim>\<open>replace\<close> has been applied for each such
  entry in that order. For the store that maps U+7CFB U+7EDF to "system" and
  U+7CFB U+7EDF U+8BBE U+7F6E to "system settings", the content
  U+7CFB U+7EDF U+8BBE U+7F6E becomes "system settings". For every content and every key
  with an applicable value in a store with distinct keys: when the loop reaches the key,
  only keys at least as long have been substituted; all its occurrences in the content
  of that moment, found without overlap from left to right, are replaced by its escaped
  translation; only keys that are not longer are substituted afterwards; and a content
  that is the key itself becomes what the later entries make of the translation. In a
  compatible store no key is substituted inside or across a translation that stands in
  the content: the rest of the loop works on what precedes and on what follows, and
  the translation put for the first occurrence of the key stands whole in the result.
\<close>

theorem longest_key_first:
  "fst (apply_translations_to_content
          [([31995, 32479], ascii ''system''),
           ([31995, 32479, 35774, 32622], ascii ''system settings'')]
          [31995, 32479, 35774, 32622]) = ascii ''system settings''
   \<and> fst (apply_translations_to_content t content)
       = foldl (\<lambda>c (k, v). py_replace c k (escape_quotes v)) content
           (filter (\<lambda>(k, v). \<not> is_placeholder v) (sorted_translations t))
   \<and> sorted_wrt (\<lambda>a b. length (fst a) \<ge> length (fst b)) (sorted_translations t)
   \<and> filter (\<lambda>e. length (fst e) = n) (sorted_translations t) = filter (\<lambda>e. length (fst e) = n) t
   \<and> (distinct (map fst t) \<and> (k, v) \<in> set t \<and> \<not> is_placeholder v \<longrightarrow>
        fst (apply_translations_to_content t content)
          = foldl (\<lambda>c (k, v). py_replace c k (escape_quotes v))
              (py_replace
                 (foldl (\<lambda>c (k, v). py_replace c k (escape_quotes v)) content
                    (filter (\<lambda>(k, v). \<not> is_placeholder v)
                       (takeWhile (\<lambda>e. fst e \<noteq> k) (sorted_translations t))))
                 k (escape_quotes v))
              (filter (\<lambda>(k, v). \<not> is_placeholder v)
                 (tl (dropWhile (\<lambda>e. fst e \<noteq> k) (sorted_translations t))))
        \<and> (\<forall>e\<in>set (takeWhile (\<lambda>e. fst e \<noteq> k) (sorted_translations t)).
              length k \<le> length (fst e))
        \<and> (\<forall>e\<in>set (tl (dropWhile (\<lambda>e. fst e \<noteq> k) (sorted_translations t))).
              length (fst e) \<le> length k)
        \<and> fst (apply_translations_to_content t k)
          = foldl (\<lambda>c (k, v). py_replace c k (escape_quotes v)) (escape_quotes v)
              (filter (\<lambda>(k, v). \<not> is_placeholder v)
                 (tl (dropWhile (\<lambda>e. fst e \<noteq> k) (sorted_translations t)))))
   \<and> (distinct (map fst t) \<and> (k, v) \<in> set t \<and> \<not> is_placeholder v \<and> compatible t
        \<and> foldl (\<lambda>c (k, v). py_replace c k (escape_quotes v)) content
             (filter (\<lambda>(k, v). \<not> is_placeholder v)
                (takeWhile (\<lambda>e. fst e \<noteq> k) (sorted_translations t)))
           = pre @ k @ post
        \<and> \<not> sublist k (pre @ butlast k) \<longrightarrow>
        fst (apply_translations_to_content t content)
          = foldl (\<lambda>c (k, v). py_replace c k (escape_quotes v)) pre
              (filter (\<lambda>(k, v). \<not> is_placeholder v)
                 (tl (dropWhile (\<lambda>e. fst e \<noteq> k) (sorted_translations t))))
            @ escape_quotes v
            @ foldl (\<lambda>c (k, v). py_replace c k (escape_quotes v))
                (py_replace post k (escape_quotes v))
                (filter (\<lambda>(k, v). \<not> is_placeholder v)
                   (tl (dropWhile (\<lambda>e. fst e \<noteq> k) (sorted_translations t)))))
   \<and> (compatible t \<and> (k, v) \<in> set t \<and> \<not> is_placeholder v \<and> set es \<subseteq> set t \<longrightarrow>
        foldl (\<lambda>c (k, v). py_replace c k (escape_quotes v)) (a @ escape_quotes v @ b)
          (filter (\<lambda>(k, v). \<not> is_placeholder v) es)
        = foldl (\<lambda>c (k, v). py_replace c k (escape_quotes v)) a
            (filter (\<lambda>(k, v). \<not> is_placeholder v) es)
          @ escape_quotes v
          @ foldl (\<lambda>c (k, v). py_replace c k (escape_quotes v)) b
              (filter (\<lambda>(k, v). \<not> is_placeholder v) es))"
proof (intro conjI impI)
  show "fst (apply_translations_to_content
          [([31995, 32479], ascii ''system''),
           ([31995, 32479, 35774, 32622], ascii ''system settings'')]
          [31995, 32479, 35774, 32622]) = ascii ''system settings''"
    by (simp add: apply_translations_to_content_def sorted_translations_def apply_loop_def
        apply_step_def is_placeholder_def startswith_def endswith_def suffix_to_prefix ascii_def
        py_count_def py_replace_def escape_quotes_def Let_def)
  show "fst (apply_translations_to_content t content)
       = foldl (\<lambda>c (k, v). py_replace c k (escape_quotes v)) content
           (filter (\<lambda>(k, v). \<not> is_placeholder v) (sorted_translations t))"
    by (rule fst_apply_content)
  show "sorted_wrt (\<lambda>a b. length (fst a) \<ge> length (fst b)) (sorted_translations t)"
    by (rule descending_sorted_translations)
  show "filter (\<lambda>e. length (fst e) = n) (sorted_translations t) = filter (\<lambda>e. length (fst e) = n) t"
    by (rule stable_sorted_translations)
next
  assume a: "distinct (map fst t) \<and> (k, v) \<in> set t \<and> \<not> is_placeholder v"
  then have d: "distinct (map fst t)" and m: "(k, v) \<in> set t" and p: "\<not> is_placeholder v"
    by auto
  show "fst (apply_translations_to_content t content)
          = foldl (\<lambda>c (k, v). py_replace c k (escape_quotes v))
              (py_replace
                 (foldl (\<lambda>c (k, v). py_replace c k (escape_quotes v)) content
                    (filter (\<lambda>(k, v). \<not> is_placeholder v)
                       (takeWhile (\<lambda>e. fst e \<noteq> k) (sorted_translations t))))
                 k (escape_quotes v))
              (filter (\<lambda>(k, v). \<not> is_placeholder v)
                 (tl (dropWhile (\<lambda>e. fst e \<noteq> k) (sorted_translations t))))"
    by (rule loop_at_key[OF d m p])
  show "\<forall>e\<in>set (takeWhile (\<lambda>e. fst e \<noteq> k) (sorted_translations t)). length k \<le> length (fst e)"
    by (rule before_not_shorter[OF m])
  show "\<forall>e\<in>set (tl (dropWhile (\<lambda>e. fst e \<noteq> k) (sorted_translations t))).
              length (fst e) \<le> length k"
    by (rule rest_not_longer[OF m])
  show "fst (apply_translations_to_content t k)
          = foldl (\<lambda>c (k, v). py_replace c k (escape_quotes v)) (escape_quotes v)
              (filter (\<lambda>(k, v). \<not> is_placeholder v)
                 (tl (dropWhile (\<lambda>e. fst e \<noteq> k) (sorted_translations t))))"
    by (rule whole_key_fold[OF d m p])
next
  assume a: "distinct (map fst t) \<and> (k, v) \<in> set t \<and> \<not> is_placeholder v \<and> compatible t
        \<and> foldl (\<lambda>c (k, v). py_replace c k (escape_quotes v)) content
             (filter (\<lambda>(k, v). \<not> is_placeholder v)
                (takeWhile (\<lambda>e. fst e \<noteq> k) (sorted_translations t)))
           = pre @ k @ post
        \<and> \<not> sublist k (pre @ butlast k)"
  then have d: "distinct (map fst t)" and m: "(k, v) \<in> set t" and p: "\<not> is_placeholder v"
    and c: "compatible t"
    and e: "foldl (\<lambda>c (k, v). py_replace c k (escape_quotes v)) content
             (filter (\<lambda>(k, v). \<not> is_placeholder v)
                (takeWhile (\<lambda>e. fst e \<noteq> k) (sorted_translations t)))
           = pre @ k @ post"
    and f: "\<not> sublist k (pre @ butlast k)"
    by auto
  show "fst (apply_translations_to_content t content)
          = foldl (\<lambda>c (k, v). py_replace c k (escape_quotes v)) pre
              (filter (\<lambda>(k, v). \<not> is_placeholder v)
                 (tl (dropWhile (\<lambda>e. fst e \<noteq> k) (sorted_translations t))))
            @ escape_quotes v
            @ foldl (\<lambda>c (k, v). py_replace c k (escape_quotes v))
                (py_replace post k (escape_quotes v))
                (filter (\<lambda>(k, v). \<not> is_placeholder v)
                   (tl (dropWhile (\<lambda>e. fst e \<noteq> k) (sorted_translations t))))"
    by (rule first_occurrence_whole[OF d m p c e f])
next
  assume a: "compatible t \<and> (k, v) \<in> set t \<and> \<not> is_placeholder v \<and> set es \<subseteq> set t"
  then have "\<forall>(k', v') \<in> set (filter (\<lambda>(k, v). \<not> is_placeholder v) es).
               apart k' (escape_quotes v)"
    unfolding compatible_def by fastforce
  then show "foldl (\<lambda>c (k, v). py_replace c k (escape_quotes v)) (a @ escape_quotes v @ b)
          (filter (\<lambda>(k, v). \<not> is_placeholder v) es)
        = foldl (\<lambda>c (k, v). py_replace c k (escape_quotes v)) a
            (filter (\<lambda>(k, v). \<not> is_placeholder v) es)
          @ escape_quotes v
          @ foldl (\<lambda>c (k, v). py_replace c k (escape_quotes v)) b
              (filter (\<lambda>(k, v). \<not> is_placeholder v) es)"
    by (rule fold_barrier)
qed

text \<open>
  The hypotheses of C1 hold at the store of the example extended by a longer key, for a
  content that holds the longer key, the key of the example and the shorter key.
\<close>

theorem longest_key_first_witness:
  "distinct (map fst [([31995, 32479], ascii ''system''),
                      ([31995, 32479, 35774, 32622], ascii ''system settings''),
                      ([20320, 22909, 19990, 30028, 22909], ascii ''hello'')])
   \<and> \<not> is_placeholder (ascii ''system settings'')
   \<and> compatible [([31995, 32479], ascii ''system''),
                 ([31995, 32479, 35774, 32622], ascii ''system settings''),
                 ([20320, 22909, 19990, 30028, 22909], ascii ''hello'')]
   \<and> takeWhile (\<lambda>e. fst e \<noteq> [31995, 32479, 35774, 32622])
        (sorted_translations [([31995, 32479], ascii ''system''),
                      ([31995, 32479, 35774, 32622], ascii ''system settings''),
                      ([20320, 22909, 19990, 30028, 22909], ascii ''hello'')])
      = [([20320, 22909, 19990, 30028, 22909], ascii ''hello'')]
   \<and> py_replace ([20320, 22909, 19990, 30028, 22909] @ [97] @ [31995, 32479, 35774, 32622]
                  @ [98, 31995, 32479])
        [20320, 22909, 19990, 30028, 22909] (ascii ''hello'')
      = ascii ''helloa'' @ [31995, 32479, 35774, 32622] @ [98, 31995, 32479]
   \<and> \<not> sublist [31995, 32479, 35774, 32622 :: nat] (ascii ''helloa'' @ butlast [31995, 32479, 35774, 32622])
   \<and> fst (apply_translations_to_content
        [([31995, 32479], ascii ''system''),
         ([31995, 32479, 35774, 32622], ascii ''system settings''),
         ([20320, 22909, 19990, 30028, 22909], ascii ''hello'')]
        ([20320, 22909, 19990, 30028, 22909] @ [97] @ [31995, 32479, 35774, 32622]
           @ [98, 31995, 32479]))
      = ascii ''helloa'' @ ascii ''system settings'' @ ascii ''bsystem''
   \<and> fst (apply_translations_to_content
        [([31995, 32479], ascii ''system''),
         ([31995, 32479, 35774, 32622], ascii ''system settings''),
         ([20320, 22909, 19990, 30028, 22909], ascii ''hello'')]
        [31995, 32479, 35774, 32622])
      = ascii ''system settings''
   \<and> foldl (\<lambda>c (k, v). py_replace c k (escape_quotes v))
        ([31995, 32479] @ ascii ''system settings'' @ [31995, 32479])
        [([31995, 32479], ascii ''system'')]
      = ascii ''system'' @ ascii ''system settings'' @ ascii ''system''"
proof -
  let ?t = "[([31995, 32479], ascii ''system''),
         ([31995, 32479, 35774, 32622], ascii ''system settings''),
         ([20320, 22909, 19990, 30028, 22909], ascii ''hello'')]"
  let ?k = "[31995, 32479, 35774, 32622::nat]"
  let ?c = "[20320, 22909, 19990, 30028, 22909] @ [97] @ ?k @ [98, 31995, 32479]"
  let ?S = "\<lambda>c (k, v). py_replace c k (escape_quotes v)"
  let ?V = "filter (\<lambda>(k, v). \<not> is_placeholder v)"
  have s: "sorted_translations ?t
     = [([20320, 22909, 19990, 30028, 22909], ascii ''hello''),
        ([31995, 32479, 35774, 32622], ascii ''system settings''),
        ([31995, 32479], ascii ''system'')]"
    by (simp add: sorted_translations_def)
  have d: "distinct (map fst ?t)" by simp
  have m: "(?k, ascii ''system settings'') \<in> set ?t" by simp
  have p: "\<not> is_placeholder (ascii ''system settings'')"
    by (simp add: is_placeholder_def startswith_def ascii_def)
  have c: "compatible ?t"
    by (simp add: compatible_def apart_def is_placeholder_def startswith_def endswith_def
        suffix_to_prefix ascii_def escape_quotes_def py_replace_def)
  have tw: "takeWhile (\<lambda>e. fst e \<noteq> ?k) (sorted_translations ?t)
      = [([20320, 22909, 19990, 30028, 22909], ascii ''hello'')]"
    unfolding s by simp
  have dw: "tl (dropWhile (\<lambda>e. fst e \<noteq> ?k) (sorted_translations ?t))
      = [([31995, 32479], ascii ''system'')]"
    unfolding s by simp
  have vb: "?V [([20320, 22909, 19990, 30028, 22909], ascii ''hello'')]
            = [([20320, 22909, 19990, 30028, 22909], ascii ''hello'')]"
    and va: "?V [([31995, 32479], ascii ''system'')] = [([31995, 32479], ascii ''system'')]"
    by (simp_all add: is_placeholder_def startswith_def ascii_def)
  have eh: "escape_quotes (ascii ''hello'') = ascii ''hello''"
    and es: "escape_quotes (ascii ''system'') = ascii ''system''"
    and ess: "escape_quotes (ascii ''system settings'') = ascii ''system settings''"
    by (simp_all add: escape_quotes_def py_replace_def ascii_def)
  have r0: "py_replace ?c [20320, 22909, 19990, 30028, 22909] (ascii ''hello'')
            = ascii ''helloa'' @ ?k @ [98, 31995, 32479]"
    by (simp add: py_replace_def ascii_def)
  have e: "foldl ?S ?c (?V (takeWhile (\<lambda>e. fst e \<noteq> ?k) (sorted_translations ?t)))
           = ascii ''helloa'' @ ?k @ [98, 31995, 32479]"
    unfolding tw vb using r0 eh by simp
  have f: "\<not> sublist ?k (ascii ''helloa'' @ butlast ?k)"
    by (simp add: sublist_Cons_right ascii_def)
  have g1: "foldl ?S (ascii ''helloa'') [([31995, 32479], ascii ''system'')] = ascii ''helloa''"
    unfolding foldl.simps prod.case es by (simp add: py_replace_def ascii_def)
  have g2: "foldl ?S (py_replace [98, 31995, 32479] ?k (ascii ''system settings''))
               [([31995, 32479], ascii ''system'')] = ascii ''bsystem''"
    unfolding foldl.simps prod.case es by (simp add: py_replace_def ascii_def)
  have g3: "foldl ?S (ascii ''system settings'') [([31995, 32479], ascii ''system'')]
            = ascii ''system settings''"
    unfolding foldl.simps prod.case es by (simp add: py_replace_def ascii_def)
  note T = longest_key_first[where t = ?t and content = ?c and k = ?k
             and v = "ascii ''system settings''" and pre = "ascii ''helloa''"
             and post = "[98, 31995, 32479]" and n = 0 and es = "[([31995, 32479], ascii ''system'')]"
             and a = "[31995, 32479]" and b = "[31995, 32479]"]
  have "fst (apply_translations_to_content ?t ?c)
        = foldl ?S (ascii ''helloa'')
            (?V (tl (dropWhile (\<lambda>e. fst e \<noteq> ?k) (sorted_translations ?t))))
          @ escape_quotes (ascii ''system settings'')
          @ foldl ?S (py_replace [98, 31995, 32479] ?k (escape_quotes (ascii ''system settings'')))
              (?V (tl (dropWhile (\<lambda>e. fst e \<noteq> ?k) (sorted_translations ?t))))"
    by (rule T[THEN conjunct2, THEN conjunct2, THEN conjunct2, THEN conjunct2, THEN conjunct2,
              THEN conjunct1, THEN mp])
       (intro conjI d m p c e f)
  then have 1: "fst (apply_translations_to_content ?t ?c)
        = ascii ''helloa'' @ ascii ''system settings'' @ ascii ''bsystem''"
    unfolding dw va ess g1 g2 .
  have "fst (apply_translations_to_content ?t ?k)
        = foldl ?S (escape_quotes (ascii ''system settings''))
            (?V (tl (dropWhile (\<lambda>e. fst e \<noteq> ?k) (sorted_translations ?t))))"
    by (rule T[THEN conjunct2, THEN conjunct2, THEN conjunct2, THEN conjunct2, THEN conjunct1,
              THEN mp, THEN conjunct2, THEN conjunct2, THEN conjunct2])
       (intro conjI d m p)
  then have 2: "fst (apply_translations_to_content ?t ?k) = ascii ''system settings''"
    unfolding dw va ess g3 .
  have g4: "foldl ?S [31995, 32479] [([31995, 32479], ascii ''system'')] = ascii ''system''"
    unfolding foldl.simps prod.case es by (simp add: py_replace_def ascii_def)
  have sub: "set [([31995, 32479], ascii ''system'')] \<subseteq> set ?t" by simp
  have "foldl ?S ([31995, 32479] @ escape_quotes (ascii ''system settings'') @ [31995, 32479])
          (?V [([31995, 32479], ascii ''system'')])
        = foldl ?S [31995, 32479] (?V [([31995, 32479], ascii ''system'')])
          @ escape_quotes (ascii ''system settings'')
          @ foldl ?S [31995, 32479] (?V [([31995, 32479], ascii ''system'')])"
    by (rule T[THEN conjunct2, THEN conjunct2, THEN conjunct2, THEN conjunct2, THEN conjunct2,
              THEN conjunct2, THEN mp])
       (intro conjI c m p sub)
  then have 3: "foldl ?S ([31995, 32479] @ ascii ''system settings'' @ [31995, 32479])
          [([31995, 32479], ascii ''system'')]
        = ascii ''system'' @ ascii ''system settings'' @ ascii ''system''"
    unfolding va ess g4 .
  show ?thesis by (intro conjI d p c tw r0 f 1 2 3)
qed

text \<open>
  Claim C1 as stated fails. A longer key of the store whose value is a placeholder is
  skipped, and the shorter key is substituted inside its occurrence: the content
  U+7CFB U+7EDF U+8BBE U+7F6E becomes "system" followed by U+8BBE U+7F6E. And where two
  occurrences of the longer key overlap, only the first is replaced, and the shorter
  key is substituted inside what is left of the second: five times U+54C8 with the keys
  U+54C8 U+54C8 U+54C8 and U+54C8 U+54C8 becomes "LOLha".
\<close>

theorem shorter_key_inside_longer_counterexample:
  "fst (apply_translations_to_content
          [([31995, 32479, 35774, 32622], bracket ''GOOGLE_API_ERROR'' [31995, 32479, 35774, 32622]),
           ([31995, 32479], ascii ''system'')]
          [31995, 32479, 35774, 32622]) = ascii ''system'' @ [35774, 32622]
   \<and> fst (apply_translations_to_content
          [([21704, 21704, 21704], ascii ''LOL''), ([21704, 21704], ascii ''ha'')]
          ([21704, 21704] @ [21704, 21704, 21704])) = ascii ''LOLha''"
  by (simp add: apply_translations_to_content_def sorted_translations_def apply_loop_def
        apply_step_def is_placeholder_def startswith_def endswith_def suffix_to_prefix ascii_def py_count_def
        py_replace_def escape_quotes_def Let_def bracket_def)

text \<open>
  Claim C8, as amended. When the store is compatible (every key with an applicable
  value is not empty, neither its first nor its last character occurs in an escaped
  applicable value, and every such value has a character that the key has not), then
  after one pass every applicable key has occurrence count zero in the content, and a
  second pass returns that content with no replacement counted. On a file: when the
  second run decodes the file to the content that the substitution of the first run
  produced, the second run writes nothing and answers False; and when the first run
  answered False and left the file system as it was, so does the second.
\<close>

theorem second_run_changes_nothing:
  "compatible (translations_dict app) \<Longrightarrow>
     (\<forall>(k, v) \<in> set (translations_dict app). \<not> is_placeholder v \<longrightarrow>
        py_count (fst (apply_translations_to_content (translations_dict app) content)) k = 0)
     \<and> apply_translations_to_content (translations_dict app)
          (fst (apply_translations_to_content (translations_dict app) content))
        = (fst (apply_translations_to_content (translations_dict app) content), 0)
     \<and> (apply_translations_to_file os app fs file_path = (changed, app1, fs1)
          \<and> read_first os fs file_path encodings = Inr (Some (content, enc))
          \<and> read_first os fs1 file_path encodings
              = Inr (Some (fst (apply_translations_to_content (translations_dict app) content), enc1))
          \<longrightarrow> apply_translations_to_file os app1 fs1 file_path = (False, app1, fs1))
     \<and> (apply_translations_to_file os app fs file_path = (False, app1, fs1) \<and> fs1 = fs
          \<longrightarrow> apply_translations_to_file os app1 fs1 file_path = (False, app1, fs1))"
proof -
  assume c: "compatible (translations_dict app)"
  let ?t = "translations_dict app"
  let ?c1 = "fst (apply_translations_to_content ?t content)"
  have absent: "\<not> sublist k ?c1" if "(k, v) \<in> set ?t" "\<not> is_placeholder v" for k v
    using loop_no_occurrence[OF c, of "sorted_translations ?t" k v "(content, 0)"] that
    by (simp add: set_sorted_translations apply_translations_to_content_def)
  have counts: "\<forall>(k, v) \<in> set ?t. \<not> is_placeholder v \<longrightarrow> py_count ?c1 k = 0"
  proof clarify
    fix k v
    assume "(k, v) \<in> set ?t" "\<not> is_placeholder v"
    then have "\<not> sublist k ?c1" by (rule absent)
    then show "py_count ?c1 k = 0" using py_count_pos[of ?c1 k] by simp
  qed
  have "\<forall>(k, v) \<in> set (sorted_translations ?t). \<not> is_placeholder v \<longrightarrow> \<not> sublist k ?c1"
    using absent by (auto simp: set_sorted_translations)
  then have "apply_loop (sorted_translations ?t) (?c1, 0) = (?c1, 0)"
    by (rule loop_identity)
  then have fixed: "apply_translations_to_content ?t ?c1 = (?c1, 0)"
    by (simp add: apply_translations_to_content_def)
  have second: "apply_translations_to_file os app1 fs1 file_path = (False, app1, fs1)"
    if r: "apply_translations_to_file os app fs file_path = (changed, app1, fs1)"
      and r1: "read_first os fs1 file_path encodings = Inr (Some (?c1, enc1))"
  proof -
    from r have "translations_dict app1 = ?t" by (rule file_run_keeps_store)
    with r1 fixed show ?thesis by (simp add: apply_translations_to_file_def)
  qed
  have same: "apply_translations_to_file os app1 fs1 file_path = (False, app1, fs1)"
    if r: "apply_translations_to_file os app fs file_path = (False, app1, fs1)" and "fs1 = fs"
  proof -
    from r have "app1 = app" by (rule file_run_unchanged_object)
    with r \<open>fs1 = fs\<close> show ?thesis by simp
  qed
  from counts fixed second same show ?thesis by blast
qed

text \<open>
  In the sample environment, with the store of the longest-match example: the first run
  writes "system settings", the second run reads it back and changes nothing.
\<close>

theorem second_run_changes_nothing_witness:
  "compatible [([31995, 32479], ascii ''system''),
               ([31995, 32479, 35774, 32622], ascii ''system settings'')]
   \<and> apply_translations_to_file sample_os
        \<lparr>translations_file = ''t.json'',
         translations_dict = [([31995, 32479], ascii ''system''),
                              ([31995, 32479, 35774, 32622], ascii ''system settings'')],
         backup_made = False, files_modified = 0, replacements_made = 0\<rparr>
        [''src/a.js'' \<mapsto> [31995, 32479, 35774, 32622]] ''src/a.js''
      = (True,
         \<lparr>translations_file = ''t.json'',
          translations_dict = [([31995, 32479], ascii ''system''),
                               ([31995, 32479, 35774, 32622], ascii ''system settings'')],
          backup_made = False, files_modified = 0, replacements_made = 1\<rparr>,
         [''src/a.js'' \<mapsto> ascii ''system settings''])
   \<and> read_first sample_os [''src/a.js'' \<mapsto> ascii ''system settings''] ''src/a.js'' encodings
      = Inr (Some (ascii ''system settings'', GBK))
   \<and> apply_translations_to_file sample_os
        \<lparr>translations_file = ''t.json'',
         translations_dict = [([31995, 32479], ascii ''system''),
                              ([31995, 32479, 35774, 32622], ascii ''system settings'')],
         backup_made = False, files_modified = 0, replacements_made = 1\<rparr>
        [''src/a.js'' \<mapsto> ascii ''system settings''] ''src/a.js''
      = (False,
         \<lparr>translations_file = ''t.json'',
          translations_dict = [([31995, 32479], ascii ''system''),
                               ([31995, 32479, 35774, 32622], ascii ''system settings'')],
          backup_made = False, files_modified = 0, replacements_made = 1\<rparr>,
         [''src/a.js'' \<mapsto> ascii ''system settings''])"
proof -
  let ?t = "[([31995, 32479], ascii ''system''),
               ([31995, 32479, 35774, 32622], ascii ''system settings'')]"
  let ?app = "\<lparr>translations_file = ''t.json'', translations_dict = ?t,
         backup_made = False, files_modified = 0, replacements_made = 0\<rparr>"
  let ?app1 = "\<lparr>translations_file = ''t.json'', translations_dict = ?t,
         backup_made = False, files_modified = 0, replacements_made = 1\<rparr>"
  let ?fs = "[''src/a.js'' \<mapsto> [31995, 32479, 35774, 32622]] :: filesystem"
  let ?fs1 = "[''src/a.js'' \<mapsto> ascii ''system settings''] :: filesystem"
  have c: "compatible (translations_dict ?app)"
    by (simp add: compatible_def apart_def is_placeholder_def startswith_def endswith_def
        suffix_to_prefix ascii_def escape_quotes_def py_replace_def)
  have r0: "read_first sample_os ?fs ''src/a.js'' encodings
            = Inr (Some ([31995, 32479, 35774, 32622], GBK))"
    by (simp add: encodings_def read_text_def sample_os_def)
  have a: "apply_translations_to_content ?t [31995, 32479, 35774, 32622]
           = (ascii ''system settings'', 1)"
    by (simp add: eval_content ascii_def)
  have e: "encode sample_os GBK (ascii ''system settings'') = Some (ascii ''system settings'')"
    by (simp add: sample_os_def)
  have ne: "ascii ''system settings'' \<noteq> [31995, 32479, 35774, 32622]"
    by (simp add: ascii_def)
  have r: "apply_translations_to_file sample_os ?app ?fs ''src/a.js'' = (True, ?app1, ?fs1)"
    by (simp add: apply_translations_to_file_def r0 a write_text_def e ne)
  have r1: "read_first sample_os ?fs1 ''src/a.js'' encodings
            = Inr (Some (ascii ''system settings'', GBK))"
    by (simp add: encodings_def read_text_def sample_os_def)
  have r1': "read_first sample_os ?fs1 ''src/a.js'' encodings
       = Inr (Some (fst (apply_translations_to_content (translations_dict ?app)
                           [31995, 32479, 35774, 32622]), GBK))"
    using r1 a by simp
  have "apply_translations_to_file sample_os ?app1 ?fs1 ''src/a.js'' = (False, ?app1, ?fs1)"
    by (rule second_run_changes_nothing[OF c, of "[31995, 32479, 35774, 32622]" sample_os ?fs
          "''src/a.js''" True ?app1 ?fs1 GBK GBK,
          THEN conjunct2, THEN conjunct2, THEN conjunct1, THEN mp])
       (intro conjI r r0 r1')
  with c r r1 show ?thesis by simp
qed

text \<open>
  Claim C8 as stated fails, in two ways. When a translation contains its own key (the
  store maps U+597D to U+597D U+7684), the first run writes U+597D U+7684 and the
  second U+597D U+7684 U+7684. And with a compatible store (U+4F60 to "a", U+0123 to
  "b"), a file with the bytes C4 E3 C4 A3 is decoded as GBK by the first run, which
  writes the bytes 61 C4 A3; these are valid UTF-8, the second run decodes them to "a"
  and U+0123, and writes "ab".
\<close>

theorem second_run_changes_counterexample:
  "apply_translations_to_file sample_os
     \<lparr>translations_file = ''t.json'', translations_dict = [([22909], [22909, 30340])],
      backup_made = False, files_modified = 0, replacements_made = 0\<rparr>
     [''src/a.js'' \<mapsto> [22909]] ''src/a.js''
   = (True,
      \<lparr>translations_file = ''t.json'', translations_dict = [([22909], [22909, 30340])],
       backup_made = False, files_modified = 0, replacements_made = 1\<rparr>,
      [''src/a.js'' \<mapsto> [22909, 30340]])
   \<and> apply_translations_to_file sample_os
     \<lparr>translations_file = ''t.json'', translations_dict = [([22909], [22909, 30340])],
      backup_made = False, files_modified = 0, replacements_made = 1\<rparr>
     [''src/a.js'' \<mapsto> [22909, 30340]] ''src/a.js''
   = (True,
      \<lparr>translations_file = ''t.json'', translations_dict = [([22909], [22909, 30340])],
       backup_made = False, files_modified = 0, replacements_made = 2\<rparr>,
      [''src/a.js'' \<mapsto> [22909, 30340, 30340]])
   \<and> compatible [([0x4F60], ascii ''a''), ([0x123], ascii ''b'')]
   \<and> apply_translations_to_file mini_os
     \<lparr>translations_file = ''t.json'',
      translations_dict = [([0x4F60], ascii ''a''), ([0x123], ascii ''b'')],
      backup_made = False, files_modified = 0, replacements_made = 0\<rparr>
     [''src/a.js'' \<mapsto> [0xC4, 0xE3, 0xC4, 0xA3]] ''src/a.js''
   = (True,
      \<lparr>translations_file = ''t.json'',
       translations_dict = [([0x4F60], ascii ''a''), ([0x123], ascii ''b'')],
       backup_made = False, files_modified = 0, replacements_made = 1\<rparr>,
      [''src/a.js'' \<mapsto> [0x61, 0xC4, 0xA3]])
   \<and> apply_translations_to_file mini_os
     \<lparr>translations_file = ''t.json'',
      translations_dict = [([0x4F60], ascii ''a''), ([0x123], ascii ''b'')],
      backup_made = False, files_modified = 0, replacements_made = 1\<rparr>
     [''src/a.js'' \<mapsto> [0x61, 0xC4, 0xA3]] ''src/a.js''
   = (True,
      \<lparr>translations_file = ''t.json'',
       translations_dict = [([0x4F60], ascii ''a''), ([0x123], ascii ''b'')],
       backup_made = False, files_modified = 0, replacements_made = 2\<rparr>,
      [''src/a.js'' \<mapsto> [0x61, 0x62]])"
proof -
  have s0: "read_first sample_os [''src/a.js'' \<mapsto> [22909]] ''src/a.js'' encodings
            = Inr (Some ([22909], GBK))"
    and s1: "read_first sample_os [''src/a.js'' \<mapsto> [22909, 30340]] ''src/a.js'' encodings
            = Inr (Some ([22909, 30340], GBK))"
    by (simp_all add: encodings_def read_text_def sample_os_def)
  have a0: "apply_translations_to_content [([22909], [22909, 30340])] [22909] = ([22909, 30340], 1)"
    and a1: "apply_translations_to_content [([22909], [22909, 30340])] [22909, 30340]
             = ([22909, 30340, 30340], 1)"
    by (simp_all add: eval_content)
  have es: "\<And>s. encode sample_os GBK s = Some s" by (simp add: sample_os_def)
  have 1: "apply_translations_to_file sample_os
     \<lparr>translations_file = ''t.json'', translations_dict = [([22909], [22909, 30340])],
      backup_made = False, files_modified = 0, replacements_made = 0\<rparr>
     [''src/a.js'' \<mapsto> [22909]] ''src/a.js''
   = (True,
      \<lparr>translations_file = ''t.json'', translations_dict = [([22909], [22909, 30340])],
       backup_made = False, files_modified = 0, replacements_made = 1\<rparr>,
      [''src/a.js'' \<mapsto> [22909, 30340]])"
    by (simp add: apply_translations_to_file_def s0 a0 write_text_def es)
  have 2: "apply_translations_to_file sample_os
     \<lparr>translations_file = ''t.json'', translations_dict = [([22909], [22909, 30340])],
      backup_made = False, files_modified = 0, replacements_made = 1\<rparr>
     [''src/a.js'' \<mapsto> [22909, 30340]] ''src/a.js''
   = (True,
      \<lparr>translations_file = ''t.json'', translations_dict = [([22909], [22909, 30340])],
       backup_made = False, files_modified = 0, replacements_made = 2\<rparr>,
      [''src/a.js'' \<mapsto> [22909, 30340, 30340]])"
    by (simp add: apply_translations_to_file_def s1 a1 write_text_def es)
  let ?t = "[([0x4F60], ascii ''a''), ([0x123], ascii ''b'')] :: store"
  have c: "compatible ?t"
    by (simp add: compatible_def apart_def is_placeholder_def startswith_def endswith_def
        suffix_to_prefix ascii_def escape_quotes_def py_replace_def)
  have m0: "read_first mini_os [''src/a.js'' \<mapsto> [0xC4, 0xE3, 0xC4, 0xA3]] ''src/a.js'' encodings
            = Inr (Some ([0x4F60, 0x6A21], GBK))"
    and m1: "read_first mini_os [''src/a.js'' \<mapsto> [0x61, 0xC4, 0xA3]] ''src/a.js'' encodings
            = Inr (Some ([0x61, 0x123], UTF8))"
    by (simp_all add: encodings_def read_text_def mini_os_def)
  have b0: "apply_translations_to_content ?t [0x4F60, 0x6A21] = ([0x61, 0x6A21], 1)"
    and b1: "apply_translations_to_content ?t [0x61, 0x123] = ([0x61, 0x62], 1)"
    by (simp_all add: eval_content ascii_def)
  have e0: "encode mini_os GBK [0x61, 0x6A21] = Some [0x61, 0xC4, 0xA3]"
    and e1: "encode mini_os UTF8 [0x61, 0x62] = Some [0x61, 0x62]"
    by (simp_all add: mini_os_def encode_mini_def encode_char_mini_def)
  have 3: "apply_translations_to_file mini_os
     \<lparr>translations_file = ''t.json'', translations_dict = ?t,
      backup_made = False, files_modified = 0, replacements_made = 0\<rparr>
     [''src/a.js'' \<mapsto> [0xC4, 0xE3, 0xC4, 0xA3]] ''src/a.js''
   = (True,
      \<lparr>translations_file = ''t.json'', translations_dict = ?t,
       backup_made = False, files_modified = 0, replacements_made = 1\<rparr>,
      [''src/a.js'' \<mapsto> [0x61, 0xC4, 0xA3]])"
    by (simp add: apply_translations_to_file_def m0 b0 write_text_def e0)
  have 4: "apply_translations_to_file mini_os
     \<lparr>translations_file = ''t.json'', translations_dict = ?t,
      backup_made = False, files_modified = 0, replacements_made = 1\<rparr>
     [''src/a.js'' \<mapsto> [0x61, 0xC4, 0xA3]] ''src/a.js''
   = (True,
      \<lparr>translations_file = ''t.json'', translations_dict = ?t,
       backup_made = False, files_modified = 0, replacements_made = 2\<rparr>,
      [''src/a.js'' \<mapsto> [0x61, 0x62]])"
    by (simp add: apply_translations_to_file_def m1 b1 write_text_def e1)
  show ?thesis by (intro conjI 1 2 c 3 4)
qed

text \<open>
  Claim C10. The test is on the shape of the value alone: an entry whose value starts
  with "[" and ends with "]" leaves the content and the counter of the loop as they
  are, whatever the key and the content; the result of the Applicator on a content is
  the result with all such entries removed from the store; and the value "[OK]" for
  the key U+597D leaves the content U+597D untouched.
\<close>

theorem bracketed_value_never_substituted:
  "(startswith v (ascii ''['') \<and> endswith v (ascii '']'') \<longrightarrow>
      apply_step (content, n) (k, v) = (content, n))
   \<and> apply_translations_to_content t content
      = apply_translations_to_content
          (filter (\<lambda>(k, v). \<not> (startswith v (ascii ''['') \<and> endswith v (ascii '']''))) t) content
   \<and> apply_translations_to_content [([22909], ascii ''[OK]'')] [22909] = ([22909], 0)"
proof -
  have br: "ascii ''['' = [91]" "ascii '']'' = [93]" by (simp_all add: ascii_def)
  have "apply_translations_to_content [([22909], ascii ''[OK]'')] [22909] = ([22909], 0)"
    by (simp add: apply_translations_to_content_def sorted_translations_def apply_loop_def
        apply_step_def is_placeholder_def startswith_def endswith_def suffix_to_prefix ascii_def)
  moreover have "apply_translations_to_content t content
      = apply_translations_to_content
          (filter (\<lambda>(k, v). \<not> (startswith v (ascii ''['') \<and> endswith v (ascii '']''))) t) content"
    using content_filter[of t content] by (simp add: is_placeholder_def br)
  ultimately show ?thesis
    by (simp add: br apply_step_def is_placeholder_def)
qed

text \<open>The value "[OK]" passes the test, and its entry leaves a content that holds its key twice as it is.\<close>

theorem bracketed_value_never_substituted_witness:
  "startswith (ascii ''[OK]'') (ascii ''['') \<and> endswith (ascii ''[OK]'') (ascii '']'')
   \<and> apply_step ([22909, 22909], 0) ([22909], ascii ''[OK]'') = ([22909, 22909], 0)"
  using bracketed_value_never_substituted [of "ascii ''[OK]''" "[22909, 22909]" 0 "[22909]" "[]"]
  by (simp add: startswith_def endswith_def suffix_to_prefix ascii_def)

section \<open>Properties of the store and of the files\<close>

text \<open>
  Claim C6. For a newly translated dictionary (its keys are distinct), every key of it
  maps to its new value in the merged dictionary, every key not in it maps to what the
  existing dictionary holds for it (or to nothing), the keys of the result are those of
  the two dictionaries, and distinct keys stay distinct. The two examples:
  merging {"A": "a"} with {"B": "b"} gives {"A": "a", "B": "b"}, and with {"A": "a2"}
  gives {"A": "a2"}.
\<close>

theorem merge_new_over_existing:
  "distinct (map fst newly_translated) \<Longrightarrow>
     (\<forall>(k, v) \<in> set newly_translated. map_of (merge existing newly_translated) k = Some v)
     \<and> (\<forall>k. k \<notin> fst ` set newly_translated \<longrightarrow>
            map_of (merge existing newly_translated) k = map_of existing k)
     \<and> fst ` set (merge existing newly_translated) = fst ` set existing \<union> fst ` set newly_translated
     \<and> (distinct (map fst existing) \<longrightarrow> distinct (map fst (merge existing newly_translated)))
     \<and> merge [(ascii ''A'', ascii ''a'')] [(ascii ''B'', ascii ''b'')]
         = [(ascii ''A'', ascii ''a''), (ascii ''B'', ascii ''b'')]
     \<and> merge [(ascii ''A'', ascii ''a'')] [(ascii ''A'', ascii ''a2'')] = [(ascii ''A'', ascii ''a2'')]"
proof -
  assume d: "distinct (map fst newly_translated)"
  have m: "map_of (merge existing newly_translated) = map_of existing ++ map_of newly_translated"
    unfolding merge_def by (rule map_of_dict_update[OF d])
  have 1: "\<forall>(k, v) \<in> set newly_translated. map_of (merge existing newly_translated) k = Some v"
    using d by (auto simp: m map_add_def)
  have 2: "\<forall>k. k \<notin> fst ` set newly_translated \<longrightarrow>
            map_of (merge existing newly_translated) k = map_of existing k"
    by (force simp: m map_add_def split: option.splits dest!: map_of_SomeD)
  have 3: "fst ` set (merge existing newly_translated) = fst ` set existing \<union> fst ` set newly_translated"
    unfolding merge_def by (rule keys_dict_update)
  have 4: "distinct (map fst existing) \<longrightarrow> distinct (map fst (merge existing newly_translated))"
    unfolding merge_def using distinct_dict_update by blast
  have 5: "merge [(ascii ''A'', ascii ''a'')] [(ascii ''B'', ascii ''b'')]
         = [(ascii ''A'', ascii ''a''), (ascii ''B'', ascii ''b'')]"
    by (simp add: merge_def dict_update_def ascii_def)
  have 6: "merge [(ascii ''A'', ascii ''a'')] [(ascii ''A'', ascii ''a2'')] = [(ascii ''A'', ascii ''a2'')]"
    by (simp add: merge_def dict_update_def ascii_def)
  from 1 2 3 4 5 6 show ?thesis by blast
qed

text \<open>The merge of {"A": "a", "C": "c"} with {"A": "a2", "B": "b"} maps "A" to "a2" and "C" to "c".\<close>

theorem merge_new_over_existing_witness:
  "distinct (map fst [(ascii ''A'', ascii ''a2''), (ascii ''B'', ascii ''b'')])
   \<and> map_of (merge [(ascii ''A'', ascii ''a''), (ascii ''C'', ascii ''c'')]
                [(ascii ''A'', ascii ''a2''), (ascii ''B'', ascii ''b'')]) (ascii ''A'') = Some (ascii ''a2'')
   \<and> map_of (merge [(ascii ''A'', ascii ''a''), (ascii ''C'', ascii ''c'')]
                [(ascii ''A'', ascii ''a2''), (ascii ''B'', ascii ''b'')]) (ascii ''C'') = Some (ascii ''c'')"
proof -
  have d: "distinct (map fst [(ascii ''A'', ascii ''a2''), (ascii ''B'', ascii ''b'')])"
    by (simp add: ascii_def)
  from merge_new_over_existing[OF d, of "[(ascii ''A'', ascii ''a''), (ascii ''C'', ascii ''c'')]"]
  have a: "map_of (merge [(ascii ''A'', ascii ''a''), (ascii ''C'', ascii ''c'')]
                [(ascii ''A'', ascii ''a2''), (ascii ''B'', ascii ''b'')]) (ascii ''A'') = Some (ascii ''a2'')"
    and c: "ascii ''C'' \<notin> fst ` set [(ascii ''A'', ascii ''a2''), (ascii ''B'', ascii ''b'')] \<longrightarrow>
         map_of (merge [(ascii ''A'', ascii ''a''), (ascii ''C'', ascii ''c'')]
                [(ascii ''A'', ascii ''a2''), (ascii ''B'', ascii ''b'')]) (ascii ''C'')
         = map_of [(ascii ''A'', ascii ''a''), (ascii ''C'', ascii ''c'')] (ascii ''C'')"
    by auto
  have "ascii ''C'' \<notin> fst ` set [(ascii ''A'', ascii ''a2''), (ascii ''B'', ascii ''b'')]"
    by (simp add: ascii_def)
  with c have "map_of (merge [(ascii ''A'', ascii ''a''), (ascii ''C'', ascii ''c'')]
                [(ascii ''A'', ascii ''a2''), (ascii ''B'', ascii ''b'')]) (ascii ''C'') = Some (ascii ''c'')"
    by (simp add: ascii_def)
  with d a show ?thesis by blast
qed

text \<open>
  Claim C2, as amended. The entries that the Applicator keeps hold no placeholder, and
  the result of the Applicator is what it is with the placeholder entries removed: a
  key whose value is a placeholder is never substituted. The strings sent to
  translation are the scanned strings that are not keys of the store, whatever their
  values: a key whose stored value is a placeholder is not requested again, and a run
  whose scanned strings are all keys of the store leaves the file system as it is.
\<close>

theorem placeholders_excluded_from_substitution_only:
  "(\<forall>(k, v) \<in> set (valid_translations t). \<not> is_placeholder v)
   \<and> apply_translations_to_content (valid_translations t) content
       = apply_translations_to_content t content
   \<and> new_strings_to_translate existing scanned = {s \<in> scanned. s \<notin> fst ` set existing}
   \<and> ((k, v) \<in> set existing \<and> is_placeholder v \<longrightarrow>
         k \<notin> new_strings_to_translate existing scanned)
   \<and> (scan_directory os fs directory \<subseteq> fst ` set (load_existing_translations os fs output_file) \<longrightarrow>
         translator_run os be list_of google_available argos_available tr fs directory (Some output_file)
         = fs)"
proof (intro conjI impI)
  show "\<forall>(k, v) \<in> set (valid_translations t). \<not> is_placeholder v"
    by (auto simp: valid_translations_def)
  show "apply_translations_to_content (valid_translations t) content
       = apply_translations_to_content t content"
    unfolding valid_translations_def by (rule content_filter)
  show "new_strings_to_translate existing scanned = {s \<in> scanned. s \<notin> fst ` set existing}"
    by (auto simp: new_strings_to_translate_def)
  show "k \<notin> new_strings_to_translate existing scanned" if "(k, v) \<in> set existing \<and> is_placeholder v"
    using that by (force simp: new_strings_to_translate_def)
  show "translator_run os be list_of google_available argos_available tr fs directory (Some output_file)
         = fs"
    if "scan_directory os fs directory \<subseteq> fst ` set (load_existing_translations os fs output_file)"
  proof -
    from that have "new_strings_to_translate (load_existing_translations os fs output_file)
         (scan_directory os fs directory) = {}"
      by (auto simp: new_strings_to_translate_def)
    then show ?thesis by (simp add: translator_run_def Let_def)
  qed
qed

text \<open>
  In the sample environment the store holds a placeholder for the one scanned string,
  and the run of the Translator changes nothing.
\<close>

theorem placeholders_excluded_from_substitution_only_witness:
  "([20320, 22909], bracket ''ARGOS_ERROR'' [20320, 22909])
      \<in> set (load_existing_translations sample_os (sample_fs [1]) ''t.json'')
   \<and> is_placeholder (bracket ''ARGOS_ERROR'' [20320, 22909])
   \<and> scan_directory sample_os (sample_fs [1]) ''src''
       \<subseteq> fst ` set (load_existing_translations sample_os (sample_fs [1]) ''t.json'')
   \<and> [20320, 22909] \<notin> new_strings_to_translate
         (load_existing_translations sample_os (sample_fs [1]) ''t.json'')
         (scan_directory sample_os (sample_fs [1]) ''src'')
   \<and> translator_run sample_os sample_backends (\<lambda>S. filter (\<lambda>s. s \<in> S) [[20320, 22909]]) True True
        \<lparr>threshold = - 1, google_translate_ready = False, argos_translator_ready = True\<rparr>
        (sample_fs [1]) ''src'' (Some ''t.json'') = sample_fs [1]"
proof -
  have l: "load_existing_translations sample_os (sample_fs [1]) ''t.json''
           = [([20320, 22909], bracket ''ARGOS_ERROR'' [20320, 22909])]"
    by (simp add: load_existing_translations_def sample_os_def sample_fs_def)
  have p: "is_placeholder (bracket ''ARGOS_ERROR'' [20320, 22909])"
    by (simp add: is_placeholder_def startswith_def endswith_def suffix_to_prefix bracket_def ascii_def)
  have s: "scan_directory sample_os (sample_fs [1]) ''src''
       \<subseteq> fst ` set (load_existing_translations sample_os (sample_fs [1]) ''t.json'')"
    unfolding l scan_sample by simp
  have m: "([20320, 22909], bracket ''ARGOS_ERROR'' [20320, 22909])
      \<in> set (load_existing_translations sample_os (sample_fs [1]) ''t.json'')"
    unfolding l by simp
  from placeholders_excluded_from_substitution_only
    [of "[]" "[]" "load_existing_translations sample_os (sample_fs [1]) ''t.json''"
        "scan_directory sample_os (sample_fs [1]) ''src''"
        "[20320, 22909]" "bracket ''ARGOS_ERROR'' [20320, 22909]"
        sample_os "sample_fs [1]" "''src''" "''t.json''"]
    m p s show ?thesis by blast
qed

text \<open>
  Claim C2 as stated fails: with the store that maps U+4F60 U+597D to the placeholder
  "[ARGOS\_ERROR: ...]" and the scanned set that holds this string, no string is sent to
  translation.
\<close>

theorem placeholder_not_retried_counterexample:
  "is_placeholder (bracket ''ARGOS_ERROR'' [20320, 22909])
   \<and> new_strings_to_translate [([20320, 22909], bracket ''ARGOS_ERROR'' [20320, 22909])]
        {[20320, 22909]} = {}"
  by (simp add: is_placeholder_def startswith_def endswith_def suffix_to_prefix bracket_def ascii_def
      new_strings_to_translate_def)

text \<open>
  Claim C3, as amended. The Translator's load returns the empty dictionary when no file
  exists and also when the file exists and cannot be parsed; in both cases the run goes
  on, and when a translator is ready and the scan finds strings, it writes to the store
  file the translations of the scanned strings and nothing else. The Applicator's load
  answers False in both cases, and its run then returns with the object and the file
  system as they were.
\<close>

theorem store_load_outcomes:
  "(fs output_file = None \<longrightarrow> load_existing_translations os fs output_file = [])
   \<and> (fs output_file = Some raw \<and> json_load os raw = None \<longrightarrow>
         load_existing_translations os fs output_file = [])
   \<and> ((fs output_file = None \<or> (fs output_file = Some raw \<and> json_load os raw = None))
        \<and> (google_available \<or> argos_available)
        \<and> (google_translate_ready tr \<or> argos_translator_ready tr)
        \<and> scan_directory os fs directory \<noteq> {} \<longrightarrow>
         translator_run os be list_of google_available argos_available tr fs directory
           (Some output_file)
         = fs(output_file \<mapsto>
              json_dump os (fst (translate_all tr be (list_of (scan_directory os fs directory))))))
   \<and> (fs (translations_file app) = None
        \<or> (fs (translations_file app) = Some raw \<and> json_load os raw = None) \<longrightarrow>
         load_translations os app fs = (False, app) \<and> run os app fs target backup = (app, fs))"
proof (intro conjI impI)
  show "load_existing_translations os fs output_file = []" if "fs output_file = None"
    using that by (simp add: load_existing_translations_def)
  show "load_existing_translations os fs output_file = []"
    if "fs output_file = Some raw \<and> json_load os raw = None"
    using that by (simp add: load_existing_translations_def)
next
  assume a: "(fs output_file = None \<or> (fs output_file = Some raw \<and> json_load os raw = None))
        \<and> (google_available \<or> argos_available)
        \<and> (google_translate_ready tr \<or> argos_translator_ready tr)
        \<and> scan_directory os fs directory \<noteq> {}"
  then have l: "load_existing_translations os fs output_file = []"
    by (auto simp: load_existing_translations_def)
  let ?scan = "scan_directory os fs directory"
  have n: "new_strings_to_translate [] ?scan = ?scan"
    by (simp add: new_strings_to_translate_def)
  have m: "merge [] (fst (translate_all tr be (list_of ?scan)))
           = fst (translate_all tr be (list_of ?scan))"
    by (rule merge_empty[OF distinct_translate_all])
  from a have c1: "\<not> (\<not> google_available \<and> \<not> argos_available)"
    and c2: "\<not> (\<not> google_translate_ready tr \<and> \<not> argos_translator_ready tr)"
    and c3: "?scan \<noteq> {}" by auto
  show "translator_run os be list_of google_available argos_available tr fs directory
           (Some output_file)
         = fs(output_file \<mapsto> json_dump os (fst (translate_all tr be (list_of ?scan))))"
    unfolding translator_run_def using c1 c2 c3
    by (auto simp: l n m save_translations_def Let_def)
next
  assume "fs (translations_file app) = None
        \<or> (fs (translations_file app) = Some raw \<and> json_load os raw = None)"
  then show "load_translations os app fs = (False, app)" "run os app fs target backup = (app, fs)"
    by (auto simp: load_translations_def run_def)
qed

text \<open>
  Both cases in the sample environment: a missing store file and one that does not
  parse, which the run of the Translator replaces by the one new entry.
\<close>

theorem store_load_outcomes_witness:
  "sample_fs [123] ''t.json'' = Some [123] \<and> json_load sample_os [123] = None
   \<and> sample_fs [123] ''missing.json'' = None
   \<and> scan_directory sample_os (sample_fs [123]) ''src'' = {[20320, 22909]}
   \<and> load_existing_translations sample_os (sample_fs [123]) ''missing.json'' = []
   \<and> load_existing_translations sample_os (sample_fs [123]) ''t.json'' = []
   \<and> translator_run sample_os sample_backends (\<lambda>S. filter (\<lambda>s. s \<in> S) [[20320, 22909]]) True True
        \<lparr>threshold = - 1, google_translate_ready = False, argos_translator_ready = True\<rparr>
        (sample_fs [123]) ''src'' (Some ''t.json'')
      = (sample_fs [123])(''t.json'' \<mapsto> [20320, 22909, 58] @ ascii ''hello'' @ [10])
   \<and> run sample_os
        \<lparr>translations_file = ''t.json'', translations_dict = [], backup_made = False,
         files_modified = 0, replacements_made = 0\<rparr>
        (sample_fs [123]) ''src/a.js'' True
      = (\<lparr>translations_file = ''t.json'', translations_dict = [], backup_made = False,
          files_modified = 0, replacements_made = 0\<rparr>, sample_fs [123])"
proof -
  let ?app = "\<lparr>translations_file = ''t.json'', translations_dict = [], backup_made = False,
         files_modified = 0, replacements_made = 0\<rparr>"
  let ?tr = "\<lparr>threshold = - 1, google_translate_ready = False, argos_translator_ready = True\<rparr>"
  let ?lo = "\<lambda>S. filter (\<lambda>s. s \<in> S) [[20320, 22909 :: nat]]"
  have a: "sample_fs [123] ''t.json'' = Some [123]" "json_load sample_os [123] = None"
    and mi: "sample_fs [123] ''missing.json'' = None"
    by (simp_all add: sample_fs_def sample_os_def)
  have s: "scan_directory sample_os (sample_fs [123]) ''src'' = {[20320, 22909]}"
    by (simp add: scan_directory_def sample_os_def sample_fs_def extract_chinese_strings_from_file_def
     encodings_def read_text_def extract_sample)
  have t: "fst (translate_all ?tr sample_backends [[20320, 22909]]) = [([20320, 22909], ascii ''hello'')]"
    by (simp add: translate_all_def argos_all_def translate_with_argos_def sample_backends_def
        py_strip_def py_isspace_def ascii_def)
  have d: "json_dump sample_os [([20320, 22909], ascii ''hello'')]
           = [20320, 22909, 58] @ ascii ''hello'' @ [10]"
    by (simp add: sample_os_def)
  note T1 = store_load_outcomes[of "sample_fs [123]" "''missing.json''" sample_os "[123]"
      True True ?tr "''src''" sample_backends ?lo ?app "''src/a.js''" True]
  note T2 = store_load_outcomes[of "sample_fs [123]" "''t.json''" sample_os "[123]"
      True True ?tr "''src''" sample_backends ?lo ?app "''src/a.js''" True]
  have 1: "load_existing_translations sample_os (sample_fs [123]) ''missing.json'' = []"
    by (rule T1[THEN conjunct1, THEN mp]) (rule mi)
  have 2: "load_existing_translations sample_os (sample_fs [123]) ''t.json'' = []"
    by (rule T2[THEN conjunct2, THEN conjunct1, THEN mp]) (intro conjI a)
  have ne: "scan_directory sample_os (sample_fs [123]) ''src'' \<noteq> {}" unfolding s by simp
  have "translator_run sample_os sample_backends ?lo True True ?tr (sample_fs [123]) ''src''
          (Some ''t.json'')
        = (sample_fs [123])(''t.json'' \<mapsto>
            json_dump sample_os (fst (translate_all ?tr sample_backends
               (?lo (scan_directory sample_os (sample_fs [123]) ''src'')))))"
    by (rule T2[THEN conjunct2, THEN conjunct2, THEN conjunct1, THEN mp])
       (use a ne in simp)
  then have 3: "translator_run sample_os sample_backends ?lo True True ?tr (sample_fs [123]) ''src''
          (Some ''t.json'')
        = (sample_fs [123])(''t.json'' \<mapsto> [20320, 22909, 58] @ ascii ''hello'' @ [10])"
    unfolding s using t d by simp
  have 4: "run sample_os ?app (sample_fs [123]) ''src/a.js'' True = (?app, sample_fs [123])"
    by (rule T2[THEN conjunct2, THEN conjunct2, THEN conjunct2, THEN mp, THEN conjunct2])
       (use a in simp)
  show ?thesis by (intro conjI a mi s 1 2 3 4)
qed

text \<open>
  Claim C3 as stated fails: with a store file that does not parse, the Translator's
  load returns the empty dictionary, the run goes on, and the store file is rewritten
  with the one new entry.
\<close>

theorem unparsable_store_overwritten_counterexample:
  "sample_fs [123] ''t.json'' = Some [123] \<and> json_load sample_os [123] = None
   \<and> load_existing_translations sample_os (sample_fs [123]) ''t.json'' = []
   \<and> translator_run sample_os sample_backends (\<lambda>S. filter (\<lambda>s. s \<in> S) [[20320, 22909]]) True True
        \<lparr>threshold = - 1, google_translate_ready = False, argos_translator_ready = True\<rparr>
        (sample_fs [123]) ''src'' (Some ''t.json'') ''t.json''
      = Some ([20320, 22909, 58] @ ascii ''hello'' @ [10])"
proof -
  have s: "scan_directory sample_os (sample_fs [123]) ''src'' = {[20320, 22909]}"
    by (simp add: scan_directory_def sample_os_def sample_fs_def extract_chinese_strings_from_file_def
     encodings_def read_text_def extract_sample)
  have l: "load_existing_translations sample_os (sample_fs [123]) ''t.json'' = []"
    by (simp add: load_existing_translations_def sample_os_def sample_fs_def)
  have t: "fst (translate_all \<lparr>threshold = - 1, google_translate_ready = False, argos_translator_ready = True\<rparr>
         sample_backends [[20320, 22909]]) = [([20320, 22909], ascii ''hello'')]"
    by (simp add: translate_all_def argos_all_def translate_with_argos_def sample_backends_def
        py_strip_def py_isspace_def ascii_def)
  show ?thesis
    by (simp add: translator_run_def s l t new_strings_to_translate_def merge_def dict_update_def
        save_translations_def Let_def)
       (simp add: sample_os_def sample_fs_def)
qed

text \<open>
  Claim C9 fails on the code. A file with the bytes C4 E3 is not valid UTF-8 and is
  decoded as GBK to U+4F60; with the store that maps U+4F60 to "hi" followed by U+1F600
  the substituted content differs and has no GBK encoding. The file is opened for
  writing, which empties it, the write raises, and the answer is False: the file is
  neither written back in the encoding that decoded it nor left as it was.
\<close>

theorem unencodable_content_empties_file:
  "apply_translations_to_file mini_os
     \<lparr>translations_file = ''t.json'', translations_dict = [([0x4F60], [104, 105, 0x1F600])],
      backup_made = False, files_modified = 0, replacements_made = 0\<rparr>
     [''src/a.js'' \<mapsto> [0xC4, 0xE3]] ''src/a.js''
   = (False,
      \<lparr>translations_file = ''t.json'', translations_dict = [([0x4F60], [104, 105, 0x1F600])],
       backup_made = False, files_modified = 0, replacements_made = 0\<rparr>,
      [''src/a.js'' \<mapsto> []])"
proof -
  have c: "apply_translations_to_content [([0x4F60], [104, 105, 0x1F600])] [0x4F60]
           = ([104, 105, 0x1F600], 1)"
    by (simp add: apply_translations_to_content_def sorted_translations_def apply_loop_def
        apply_step_def is_placeholder_def startswith_def endswith_def suffix_to_prefix
        py_count_def py_replace_def escape_quotes_def Let_def)
  have e: "encode mini_os GBK [104, 105, 0x1F600] = None"
    by (simp add: mini_os_def encode_mini_def encode_char_mini_def)
  show ?thesis
    by (simp add: apply_translations_to_file_def read_first_mini_sample c write_text_def e)
qed

text \<open>
  The outcomes of \<^verbatim>\<open>apply_translations_to_file\<close> on a file that exists are fixed by the
  first of UTF-8, GBK, GB2312, UTF-16 that decodes it: when none does, or when the
  substituted content equals the decoded one, the file system is unchanged and the
  answer is False; otherwise the file is written in that same encoding when the
  content can be encoded in it, and left empty with the answer False when it cannot.
\<close>

theorem write_back_in_decoding_encoding:
  "fs file_path = Some raw \<Longrightarrow>
   apply_translations_to_file os app fs file_path = (changed, app', fs') \<Longrightarrow>
   (case find (\<lambda>enc. decode os enc raw \<noteq> None) [UTF8, GBK, GB2312, UTF16] of
      None \<Rightarrow> fs' = fs \<and> \<not> changed
    | Some enc \<Rightarrow>
        (let original_content = the (decode os enc raw);
             content = fst (apply_translations_to_content (translations_dict app) original_content)
         in if content = original_content then fs' = fs \<and> \<not> changed
            else (case encode os enc content of
                    Some written \<Rightarrow> fs' = fs(file_path \<mapsto> written) \<and> changed
                  | None \<Rightarrow> fs' = fs(file_path \<mapsto> []) \<and> \<not> changed)))"
proof -
  assume f: "fs file_path = Some raw"
    and r: "apply_translations_to_file os app fs file_path = (changed, app', fs')"
  let ?found = "find (\<lambda>enc. decode os enc raw \<noteq> None) [UTF8, GBK, GB2312, UTF16]"
  have rf: "read_first os fs file_path encodings
            = Inr (map_option (\<lambda>enc. (the (decode os enc raw), enc)) ?found)"
    unfolding encodings_def using f by (rule read_first_find)
  show ?thesis
  proof (cases ?found)
    case None
    with r rf show ?thesis by (simp add: apply_translations_to_file_def)
  next
    case (Some enc)
    obtain content n where a:
      "apply_translations_to_content (translations_dict app) (the (decode os enc raw)) = (content, n)"
      by (cases "apply_translations_to_content (translations_dict app) (the (decode os enc raw))")
    show ?thesis
    proof (cases "content = the (decode os enc raw)")
      case True
      with r rf Some a show ?thesis by (simp add: apply_translations_to_file_def)
    next
      case False
      with r rf Some a show ?thesis
        by (auto simp: apply_translations_to_file_def write_text_def split: option.splits)
    qed
  qed
qed

text \<open>
  In the sample environment the file is decoded as GBK, the second encoding tried, and
  written back as GBK.
\<close>

theorem write_back_in_decoding_encoding_witness:
  "sample_fs [] ''src/a.js'' = Some [20320, 22909]
   \<and> apply_translations_to_file sample_os
        \<lparr>translations_file = ''t.json'', translations_dict = [([20320, 22909], ascii ''hello'')],
         backup_made = False, files_modified = 0, replacements_made = 0\<rparr>
        (sample_fs []) ''src/a.js''
      = (True,
         \<lparr>translations_file = ''t.json'', translations_dict = [([20320, 22909], ascii ''hello'')],
          backup_made = False, files_modified = 0, replacements_made = 1\<rparr>,
         (sample_fs [])(''src/a.js'' \<mapsto> ascii ''hello''))
   \<and> find (\<lambda>enc. decode sample_os enc [20320, 22909] \<noteq> None) [UTF8, GBK, GB2312, UTF16] = Some GBK
   \<and> encode sample_os GBK (ascii ''hello'') = Some (ascii ''hello'')"
proof -
  let ?app = "\<lparr>translations_file = ''t.json'', translations_dict = [([20320, 22909], ascii ''hello'')],
         backup_made = False, files_modified = 0, replacements_made = 0\<rparr>"
  have f: "sample_fs [] ''src/a.js'' = Some [20320, 22909]" by (simp add: sample_fs_def)
  have c: "apply_translations_to_content [([20320, 22909], ascii ''hello'')] [20320, 22909]
           = (ascii ''hello'', 1)"
    by (simp add: apply_translations_to_content_def sorted_translations_def apply_loop_def
        apply_step_def is_placeholder_def startswith_def endswith_def suffix_to_prefix ascii_def
        py_count_def py_replace_def escape_quotes_def Let_def)
  have rf: "read_first sample_os (sample_fs []) ''src/a.js'' encodings = Inr (Some ([20320, 22909], GBK))"
    by (simp add: encodings_def read_text_def sample_os_def sample_fs_def)
  have e: "encode sample_os GBK (ascii ''hello'') = Some (ascii ''hello'')"
    by (simp add: sample_os_def)
  have r: "apply_translations_to_file sample_os ?app (sample_fs []) ''src/a.js''
      = (True, ?app\<lparr>replacements_made := 1\<rparr>, (sample_fs [])(''src/a.js'' \<mapsto> ascii ''hello''))"
    by (simp add: apply_translations_to_file_def rf c write_text_def e) (simp add: ascii_def)
  have d: "find (\<lambda>enc. decode sample_os enc [20320, 22909] \<noteq> None) [UTF8, GBK, GB2312, UTF16] = Some GBK"
    by (simp add: sample_os_def)
  from write_back_in_decoding_encoding[OF f r] f r d e show ?thesis
    by simp
qed

section \<open>Properties of the Translator and of the extraction\<close>




text \<open>
  Claim C5, as amended. With the remote capability ready and a positive threshold T,
  an input string of length at least T is passed to the batch remote call and not to
  the local one, a string of length in [3, T) is passed to the local call and not to
  the remote one, and a string whose length is below 3 and below T is passed to
  neither.
\<close>

theorem routing_by_threshold:
  "google_translate_ready tr \<and> threshold tr > 0 \<and> s \<in> set strings_list \<longrightarrow>
     (threshold tr \<le> int (length s) \<longrightarrow>
        routed_remote (snd (translate_all tr be strings_list)) s
        \<and> \<not> routed_local (snd (translate_all tr be strings_list)) s)
     \<and> (3 \<le> length s \<and> int (length s) < threshold tr \<longrightarrow>
        routed_local (snd (translate_all tr be strings_list)) s
        \<and> \<not> routed_remote (snd (translate_all tr be strings_list)) s)
     \<and> (length s < 3 \<and> int (length s) < threshold tr \<longrightarrow>
        \<not> routed_remote (snd (translate_all tr be strings_list)) s
        \<and> \<not> routed_local (snd (translate_all tr be strings_list)) s)"
proof
  assume a: "google_translate_ready tr \<and> threshold tr > 0 \<and> s \<in> set strings_list"
  then have "threshold tr \<noteq> - 1" "threshold tr \<noteq> 0" by auto
  with a have calls: "snd (translate_all tr be strings_list)
     = (if filter (\<lambda>s. int (length s) \<ge> threshold tr) strings_list \<noteq> []
        then [RemoteCall (filter (\<lambda>s. int (length s) \<ge> threshold tr) strings_list)] else [])
       @ map LocalCall (filter (\<lambda>s. 3 \<le> length s \<and> int (length s) < threshold tr) strings_list)"
    by (simp add: translate_all_def Let_def)
  show "(threshold tr \<le> int (length s) \<longrightarrow>
        routed_remote (snd (translate_all tr be strings_list)) s
        \<and> \<not> routed_local (snd (translate_all tr be strings_list)) s)
     \<and> (3 \<le> length s \<and> int (length s) < threshold tr \<longrightarrow>
        routed_local (snd (translate_all tr be strings_list)) s
        \<and> \<not> routed_remote (snd (translate_all tr be strings_list)) s)
     \<and> (length s < 3 \<and> int (length s) < threshold tr \<longrightarrow>
        \<not> routed_remote (snd (translate_all tr be strings_list)) s
        \<and> \<not> routed_local (snd (translate_all tr be strings_list)) s)"
    unfolding calls routed_remote_calls routed_local_calls using a by auto
qed

text \<open>
  With T = 5, strings of length 5, 4, 3, 2 go to the remote call, the local call, the
  local call and to no call.
\<close>

theorem routing_by_threshold_witness:
  "snd (translate_all \<lparr>threshold = 5, google_translate_ready = True, argos_translator_ready = True\<rparr>
          sample_backends
          [[20320, 22909, 19990, 30028, 22909], [20320, 22909, 19990, 30028],
           [20320, 22909, 19990], [20320, 22909]])
   = [RemoteCall [[20320, 22909, 19990, 30028, 22909]],
      LocalCall [20320, 22909, 19990, 30028], LocalCall [20320, 22909, 19990]]
   \<and> routed_remote (snd (translate_all
          \<lparr>threshold = 5, google_translate_ready = True, argos_translator_ready = True\<rparr>
          sample_backends
          [[20320, 22909, 19990, 30028, 22909], [20320, 22909, 19990, 30028],
           [20320, 22909, 19990], [20320, 22909]])) [20320, 22909, 19990, 30028, 22909]
   \<and> routed_local (snd (translate_all
          \<lparr>threshold = 5, google_translate_ready = True, argos_translator_ready = True\<rparr>
          sample_backends
          [[20320, 22909, 19990, 30028, 22909], [20320, 22909, 19990, 30028],
           [20320, 22909, 19990], [20320, 22909]])) [20320, 22909, 19990, 30028]
   \<and> routed_local (snd (translate_all
          \<lparr>threshold = 5, google_translate_ready = True, argos_translator_ready = True\<rparr>
          sample_backends
          [[20320, 22909, 19990, 30028, 22909], [20320, 22909, 19990, 30028],
           [20320, 22909, 19990], [20320, 22909]])) [20320, 22909, 19990]
   \<and> \<not> routed_remote (snd (translate_all
          \<lparr>threshold = 5, google_translate_ready = True, argos_translator_ready = True\<rparr>
          sample_backends
          [[20320, 22909, 19990, 30028, 22909], [20320, 22909, 19990, 30028],
           [20320, 22909, 19990], [20320, 22909]])) [20320, 22909]
   \<and> \<not> routed_local (snd (translate_all
          \<lparr>threshold = 5, google_translate_ready = True, argos_translator_ready = True\<rparr>
          sample_backends
          [[20320, 22909, 19990, 30028, 22909], [20320, 22909, 19990, 30028],
           [20320, 22909, 19990], [20320, 22909]])) [20320, 22909]"
proof -
  let ?tr = "\<lparr>threshold = 5, google_translate_ready = True, argos_translator_ready = True\<rparr>"
  let ?ss = "[[20320, 22909, 19990, 30028, 22909], [20320, 22909, 19990, 30028],
           [20320, 22909, 19990], [20320, 22909::nat]]"
  have calls: "snd (translate_all ?tr sample_backends ?ss)
   = [RemoteCall [[20320, 22909, 19990, 30028, 22909]],
      LocalCall [20320, 22909, 19990, 30028], LocalCall [20320, 22909, 19990]]"
    by (simp add: translate_all_def Let_def)
  from routing_by_threshold[of ?tr "[20320, 22909, 19990, 30028, 22909]" ?ss sample_backends]
       routing_by_threshold[of ?tr "[20320, 22909, 19990, 30028]" ?ss sample_backends]
       routing_by_threshold[of ?tr "[20320, 22909, 19990]" ?ss sample_backends]
       routing_by_threshold[of ?tr "[20320, 22909]" ?ss sample_backends]
  have "routed_remote (snd (translate_all ?tr sample_backends ?ss)) [20320, 22909, 19990, 30028, 22909]"
    "routed_local (snd (translate_all ?tr sample_backends ?ss)) [20320, 22909, 19990, 30028]"
    "routed_local (snd (translate_all ?tr sample_backends ?ss)) [20320, 22909, 19990]"
    "\<not> routed_remote (snd (translate_all ?tr sample_backends ?ss)) [20320, 22909]"
    "\<not> routed_local (snd (translate_all ?tr sample_backends ?ss)) [20320, 22909]"
    by simp_all
  with calls show ?thesis by blast
qed

text \<open>
  Claim C5 as stated fails for a threshold below 3: with T = 2 the string
  U+4F60 U+597D of length 2 is passed to the remote call.
\<close>

theorem short_string_routed_remote_counterexample:
  "length [20320, 22909 :: nat] < 3
   \<and> routed_remote (snd (translate_all
        \<lparr>threshold = 2, google_translate_ready = True, argos_translator_ready = True\<rparr>
        sample_backends [[20320, 22909]])) [20320, 22909]"
  by (simp add: translate_all_def Let_def routed_remote_def)

text \<open>
  Claim C7. Every string that the extraction returns for a text consists of characters
  of the three ranges, whitespace and the seven punctuation characters, holds a
  character of the ranges, is not empty, begins and ends with a character of the ranges
  (so that whitespace and punctuation are interior and there is no whitespace at either
  end), and holds no Latin letter; the empty text gives the empty set.
\<close>

theorem extracted_strings_are_chinese_runs:
  "(s \<in> extract_chinese_strings content \<longrightarrow>
      (\<forall>c\<in>set s. is_cjk c \<or> py_isspace c \<or> is_chinese_punct c)
      \<and> (\<exists>c\<in>set s. is_cjk c)
      \<and> s \<noteq> [] \<and> is_cjk (hd s) \<and> is_cjk (last s)
      \<and> \<not> py_isspace (hd s) \<and> \<not> py_isspace (last s)
      \<and> (\<forall>c\<in>set s. \<not> is_latin_letter c))
   \<and> extract_chinese_strings [] = {}"
proof (intro conjI impI)
  assume "s \<in> extract_chinese_strings content"
  then obtain m where m: "m \<in> set (findall_pattern1 content @ findall_pattern2 content)"
    and s: "s = py_strip m" and ex: "list_ex is_cjk s"
    by (auto simp: extract_chinese_strings_def Let_def)
  from match_props[OF m] have p: "m \<noteq> []" "is_cjk (hd m)" "is_cjk (last m)"
    "\<forall>c\<in>set m. in_middle_class c" by auto
  then have "py_strip m = m" by (intro py_strip_id) (auto dest: cjk_not_space)
  with s have sm: "s = m" by simp
  show "\<forall>c\<in>set s. is_cjk c \<or> py_isspace c \<or> is_chinese_punct c"
    using p sm by (simp add: in_middle_class_def)
  show "\<exists>c\<in>set s. is_cjk c" using ex by (simp add: list_ex_iff)
  show "s \<noteq> []" "is_cjk (hd s)" "is_cjk (last s)" using p sm by simp_all
  show "\<not> py_isspace (hd s)" "\<not> py_isspace (last s)" using p sm by (auto dest: cjk_not_space)
  show "\<forall>c\<in>set s. \<not> is_latin_letter c" using p sm latin_not_middle by blast
next
  show "extract_chinese_strings [] = {}" by (simp add: extract_chinese_strings_def)
qed

text \<open>
  The text "a", U+7CFB U+7EDF, space, U+8BBE U+7F6E, U+FF0C, "b", U+597D, space, "c" gives
  among others the run U+7CFB U+7EDF, space, U+8BBE U+7F6E.
\<close>

theorem extracted_strings_are_chinese_runs_witness:
  "[31995, 32479, 32, 35774, 32622]
     \<in> extract_chinese_strings [97, 31995, 32479, 32, 35774, 32622, 65292, 98, 22909, 32, 99]
   \<and> list_all (\<lambda>c. is_cjk c \<or> py_isspace c \<or> is_chinese_punct c) [31995, 32479, 32, 35774, 32622]
   \<and> list_all (\<lambda>c. \<not> is_latin_letter c) [31995, 32479, 32, 35774, 32622]
   \<and> is_cjk (hd [31995, 32479, 32, 35774, 32622]) \<and> is_cjk (last [31995, 32479, 32, 35774, 32622])"
proof -
  have "extract_chinese_strings [97, 31995, 32479, 32, 35774, 32622, 65292, 98, 22909, 32, 99]
        = set (filter (\<lambda>cleaned. cleaned \<noteq> [] \<and> length cleaned \<ge> 1 \<and> list_ex is_cjk cleaned)
            (map py_strip ([[31995, 32479, 32, 35774, 32622], [22909]]
                           @ [[31995, 32479], [35774, 32622], [22909]])))"
    unfolding extract_chinese_strings_def Let_def findall_pattern1_sample findall_pattern2_sample ..
  also have "\<dots> = {[31995, 32479, 32, 35774, 32622], [22909], [31995, 32479], [35774, 32622]}"
    by (auto simp: py_strip_def py_isspace_def is_cjk_def)
  finally have m: "[31995, 32479, 32, 35774, 32622]
     \<in> extract_chinese_strings [97, 31995, 32479, 32, 35774, 32622, 65292, 98, 22909, 32, 99]"
    by simp
  with extracted_strings_are_chinese_runs
    [of "[31995, 32479, 32, 35774, 32622]"
        "[97, 31995, 32479, 32, 35774, 32622, 65292, 98, 22909, 32, 99]"]
  show ?thesis unfolding list_all_iff by blast
qed

end
